theory Spec2Isabelle
  imports Main "HOL-Library.Word"
begin

section \<open>RESHAPE of the Fortran runtime (runtime/transformational.cc)\<close>

text \<open>
  The runtime aborts the process on a failed \<^verbatim>\<open>CHECK\<close>, on \<^verbatim>\<open>CRASH_NO_CASE\<close> and on a
  failed allocation. Each way of not returning is a value here. A C++ access outside the
  storage of a descriptor, or through a null pointer, has no defined behaviour; the model
  stops there with \<open>UndefinedBehaviour\<close>.
\<close>

datatype Failure =
    CheckFailed string
  | CrashNoCase
  | AllocateFailed int
  | UndefinedBehaviour

definition CHECK :: "string \<Rightarrow> bool \<Rightarrow> Failure + unit" where
  "CHECK text ok = (if ok then Inr () else Inl (CheckFailed text))"

definition bindF :: "Failure + 'a \<Rightarrow> ('a \<Rightarrow> Failure + 'b) \<Rightarrow> Failure + 'b" where
  "bindF m f = (case m of Inl e \<Rightarrow> Inl e | Inr x \<Rightarrow> f x)"

subsection \<open>Raw storage\<close>

text \<open>
  A \<^verbatim>\<open>char *\<close> is a block of raw storage and a byte offset into it. \<open>load\<close> reads
  \<open>n\<close> bytes there and \<open>store\<close> is \<^verbatim>\<open>memcpy\<close> into it.
\<close>

type_synonym byte = "8 word"
type_synonym pointer = "byte list \<times> int"

definition load :: "pointer \<Rightarrow> nat \<Rightarrow> Failure + byte list" where
  "load p n =
     (if 0 \<le> snd p \<and> nat (snd p) + n \<le> length (fst p)
      then Inr (take n (drop (nat (snd p)) (fst p)))
      else Inl UndefinedBehaviour)"

definition store :: "pointer \<Rightarrow> byte list \<Rightarrow> Failure + byte list" where
  "store p bs =
     (if 0 \<le> snd p \<and> nat (snd p) + length bs \<le> length (fst p)
      then Inr (take (nat (snd p)) (fst p) @ bs @ drop (nat (snd p) + length bs) (fst p))
      else Inl UndefinedBehaviour)"

subsection \<open>The integer decoder (lines 25-39)\<close>

text \<open>
  Modelled from the spec: \<^verbatim>\<open>evaluate::value::Integer<BITS>\<close> (lib/evaluate/integer.h) is
  not among the sources. Its object is taken to be \<open>BITS / 8\<close> bytes holding a two's
  complement integer, least significant byte first, and \<^verbatim>\<open>ToInt64\<close> to return its value.
  A \<^verbatim>\<open>std::int64_t\<close> is modelled by its value.
\<close>

definition ToInt64 :: "'a::len itself \<Rightarrow> byte list \<Rightarrow> int" where
  "ToInt64 (T :: 'a itself) bs = sint (word_of_int (horner_sum uint 256 bs) :: 'a word)"

definition LoadInt64 :: "'a::len itself \<Rightarrow> pointer \<Rightarrow> Failure + int" where
  "LoadInt64 (T :: 'a itself) p =
     (case load p (LENGTH('a) div 8) of
        Inl e \<Rightarrow> Inl e
      | Inr bs \<Rightarrow> Inr (ToInt64 T bs))"

definition GetInt64 :: "pointer \<Rightarrow> nat \<Rightarrow> Failure + int" where
  "GetInt64 p bytes =
     (if bytes = 1 then LoadInt64 TYPE(8) p
      else if bytes = 2 then LoadInt64 TYPE(16) p
      else if bytes = 4 then LoadInt64 TYPE(32) p
      else if bytes = 8 then LoadInt64 TYPE(64) p
      else Inl CrashNoCase)"

text \<open>
  The value of a two's complement integer of \<open>length bs\<close> bytes, least significant byte
  first, written out arithmetically: what the decoder is expected to return.
\<close>

definition unsigned_value :: "byte list \<Rightarrow> int" where
  "unsigned_value bs = (\<Sum>i < length bs. uint (bs ! i) * 256 ^ i)"

definition stored_value :: "byte list \<Rightarrow> int" where
  "stored_value bs =
     (if unsigned_value bs < 2 ^ (8 * length bs - 1) then unsigned_value bs
      else unsigned_value bs - 2 ^ (8 * length bs))"

subsection \<open>Descriptors\<close>

text \<open>
  Modelled from the spec: the class \<^verbatim>\<open>Descriptor\<close>, its \<^verbatim>\<open>Dimension\<close>,
  \<^verbatim>\<open>DescriptorAddendum\<close>, \<^verbatim>\<open>DerivedType\<close> and \<^verbatim>\<open>TypeCode\<close> (runtime/descriptor.h) are not
  among the sources. A descriptor has an element type tag, an element byte size, a lower
  bound and an extent per dimension, raw storage, an allocation attribute and an optional
  addendum. Its rank is the number of its dimensions. Its elements lie contiguously in
  the storage in array element order (first subscript varying fastest). A null base
  address is storage without bytes.
\<close>

datatype TypeCode =
  TypeInteger | TypeReal | TypeComplex | TypeCharacter | TypeLogical | TypeDerived

definition IsInteger :: "TypeCode \<Rightarrow> bool" where
  "IsInteger t = (t = TypeInteger)"

datatype CFI_attribute = CFI_attribute_pointer | CFI_attribute_allocatable | CFI_attribute_other

record Dimension =
  LowerBound :: int
  Extent :: int

definition UpperBound :: "Dimension \<Rightarrow> int" where
  "UpperBound d = LowerBound d + Extent d - 1"

record DerivedType =
  name :: string
  lenParameters :: nat
  SizeInBytes :: nat

datatype Flag = StaticDescriptor | ImplicitAllocatable | DoNotFinalize | Target

record DescriptorAddendum =
  derivedType :: "DerivedType option"
  flags :: "Flag set"
  len :: "int list"

record Descriptor =
  type :: TypeCode
  elem_len :: nat
  dim :: "Dimension list"
  base_addr :: "byte list"
  attribute :: CFI_attribute
  Addendum :: "DescriptorAddendum option"

definition rank :: "Descriptor \<Rightarrow> nat" where
  "rank d = length (dim d)"

definition ElementBytes :: "Descriptor \<Rightarrow> nat" where
  "ElementBytes d = elem_len d"

definition GetDimension :: "Descriptor \<Rightarrow> nat \<Rightarrow> Dimension" where
  "GetDimension d j = dim d ! j"

text \<open>
  Modelled from the spec: \<^verbatim>\<open>Descriptor::Elements\<close> and \<^verbatim>\<open>Descriptor::GetLowerBounds\<close>
  are not among the sources. The total element count is the product of the extents (1
  for rank 0); the lower bounds are those of the dimensions, in their order.
\<close>

definition Elements :: "Descriptor \<Rightarrow> nat" where
  "Elements d = prod_list (map (\<lambda>x. nat (Extent x)) (dim d))"

definition GetLowerBounds :: "Descriptor \<Rightarrow> int list" where
  "GetLowerBounds d = map LowerBound (dim d)"

text \<open>
  Modelled from the spec: \<^verbatim>\<open>Descriptor::Element<T>(subscripts)\<close> is not among the
  sources. It gives the address of the element with these subscripts. \<open>ElementIndex\<close> is
  the position of that element, counted in elements, when the dimensions \<open>ks\<close> are taken
  with the first of them varying fastest; the address is the base address plus that
  position in the dimensions' own order times the element size.
\<close>

fun ElementIndex :: "Dimension list \<Rightarrow> nat list \<Rightarrow> int list \<Rightarrow> int" where
  "ElementIndex dims [] subs = 0"
| "ElementIndex dims (k # ks) subs =
     (subs ! k - LowerBound (dims ! k)) + Extent (dims ! k) * ElementIndex dims ks subs"

definition Element :: "Descriptor \<Rightarrow> int list \<Rightarrow> pointer" where
  "Element d subs =
     (base_addr d, int (elem_len d) * ElementIndex (dim d) [0..<rank d] subs)"

text \<open>
  Modelled from the spec: the overload of \<^verbatim>\<open>Descriptor::Element<T>\<close> that takes one
  integer in place of the subscripts is not among the sources. It is the one that line 84
  calls, since an integer passed by value is no pointer to subscripts. It gives the
  address that many bytes after the base address.
\<close>

definition Element_offset :: "Descriptor \<Rightarrow> int \<Rightarrow> pointer" where
  "Element_offset d offset = (base_addr d, offset)"

text \<open>
  Modelled from the spec: \<^verbatim>\<open>Descriptor::IncrementSubscripts(subscripts, permutation)\<close>
  is not among the sources. It steps to the next element: the dimensions are tried in the
  order of the permutation (in their own order without one); a subscript below its upper
  bound is incremented, one at its upper bound goes back to the lower bound and the next
  dimension is tried. After the last element all subscripts are at their lower bounds
  again.
\<close>

fun IncrementLoop :: "Dimension list \<Rightarrow> nat list \<Rightarrow> int list \<Rightarrow> int list" where
  "IncrementLoop dims [] subs = subs"
| "IncrementLoop dims (k # ks) subs =
     (if subs ! k < UpperBound (dims ! k) then subs[k := subs ! k + 1]
      else IncrementLoop dims ks (subs[k := LowerBound (dims ! k)]))"

definition IncrementSubscripts :: "Descriptor \<Rightarrow> nat list option \<Rightarrow> int list \<Rightarrow> int list" where
  "IncrementSubscripts d permutation subs =
     IncrementLoop (dim d)
       (case permutation of None \<Rightarrow> [0..<rank d] | Some p \<Rightarrow> take (rank d) p) subs"

text \<open>
  What RESHAPE takes from the runtime around it, none of it among the sources, as
  parameters: the constant \<^verbatim>\<open>maxRank\<close>, whether \<^verbatim>\<open>Descriptor::Create\<close> gives a
  descriptor of an intrinsic type an addendum, and the status the allocator returns to
  this call (\<^verbatim>\<open>CFI_SUCCESS\<close> is 0).
\<close>

record Runtime =
  maxRank :: nat
  CreateAddsAddendum :: bool
  AllocateStatus :: int

definition CFI_SUCCESS :: int where
  "CFI_SUCCESS = 0"

text \<open>
  Modelled from the spec: the two overloads of \<^verbatim>\<open>Descriptor::Create\<close> are not among the
  sources. Both give a descriptor of the rank and extents asked for, without storage. The
  one for a derived type attaches an addendum for that type, with room for its length
  type parameters; the one for an intrinsic type has an addendum when the runtime says so.
\<close>

definition extentDims :: "nat \<Rightarrow> int list \<Rightarrow> Dimension list" where
  "extentDims n extent = map (\<lambda>e. \<lparr>LowerBound = 1, Extent = e\<rparr>) (take n extent)"

definition CreateDerived ::
  "DerivedType \<Rightarrow> nat \<Rightarrow> int list \<Rightarrow> CFI_attribute \<Rightarrow> Descriptor" where
  "CreateDerived dt n extent attr =
     \<lparr>type = TypeDerived, elem_len = SizeInBytes dt, dim = extentDims n extent,
      base_addr = [], attribute = attr,
      Addendum = Some \<lparr>derivedType = Some dt, flags = {},
                       len = replicate (lenParameters dt) 0\<rparr>\<rparr>"

definition Create ::
  "Runtime \<Rightarrow> TypeCode \<Rightarrow> nat \<Rightarrow> nat \<Rightarrow> int list \<Rightarrow> CFI_attribute \<Rightarrow> Descriptor" where
  "Create rt t elementBytes n extent attr =
     \<lparr>type = t, elem_len = elementBytes, dim = extentDims n extent,
      base_addr = [], attribute = attr,
      Addendum = (if CreateAddsAddendum rt
                  then Some \<lparr>derivedType = None, flags = {}, len = []\<rparr> else None)\<rparr>"

text \<open>
  Modelled from the spec: \<^verbatim>\<open>Descriptor::Allocate(lowerBounds, extents, elementBytes)\<close>
  is not among the sources. It returns the allocator's status; on success the descriptor
  has the bounds, extents and element size given and fresh storage for all its elements.
  Fresh storage is modelled filled with zero bytes.
\<close>

definition Allocate :: "Runtime \<Rightarrow> Descriptor \<Rightarrow> int list \<Rightarrow> int list \<Rightarrow> nat \<Rightarrow> int \<times> Descriptor" where
  "Allocate rt d lb extent elementBytes =
     (if AllocateStatus rt = CFI_SUCCESS
      then (let dims = map2 (\<lambda>l e. \<lparr>LowerBound = l, Extent = e\<rparr>)
                         (take (rank d) lb) (take (rank d) extent)
            in (CFI_SUCCESS,
                d\<lparr>elem_len := elementBytes, dim := dims,
                  base_addr := replicate
                    (elementBytes * prod_list (map (\<lambda>x. nat (Extent x)) dims)) 0\<rparr>))
      else (AllocateStatus rt, d))"

subsection \<open>The shape of the result (lines 45-62)\<close>

text \<open>
  The loop of lines 56-62, with the number of shape elements still to read as its
  counter. \<^verbatim>\<open>resultElements\<close> is a \<^verbatim>\<open>std::size_t\<close>: its product wraps at \<open>2 ^ 64\<close>.
\<close>

fun ExtractShape ::
  "Descriptor \<Rightarrow> nat \<Rightarrow> nat \<Rightarrow> int \<Rightarrow> int list \<Rightarrow> nat \<Rightarrow> Failure + (int list \<times> nat)" where
  "ExtractShape shape shapeElementBytes 0 shapeSubscript resultExtent resultElements =
     Inr (resultExtent, resultElements)"
| "ExtractShape shape shapeElementBytes (Suc n) shapeSubscript resultExtent resultElements =
     bindF (GetInt64 (Element shape [shapeSubscript]) shapeElementBytes) (\<lambda>v.
     bindF (CHECK ''resultExtent[j] >= 0'' (v \<ge> 0)) (\<lambda>_.
     ExtractShape shape shapeElementBytes n (shapeSubscript + 1) (resultExtent @ [v])
       ((resultElements * nat v) mod 2 ^ 64)))"

subsection \<open>The sufficiency check (lines 66-72)\<close>

definition SufficiencyCheck :: "Descriptor \<Rightarrow> Descriptor option \<Rightarrow> nat \<Rightarrow> Failure + unit" where
  "SufficiencyCheck source pad resultElements =
     (let elementBytes = ElementBytes source;
          sourceElements = Elements source;
          padElements = (case pad of None \<Rightarrow> 0 | Some p \<Rightarrow> Elements p)
      in if resultElements < sourceElements
         then bindF (CHECK ''padElements > 0'' (padElements > 0)) (\<lambda>_.
              case pad of
                None \<Rightarrow> Inl UndefinedBehaviour
              | Some p \<Rightarrow> CHECK ''pad->ElementBytes() == elementBytes''
                            (ElementBytes p = elementBytes))
         else Inr ())"

subsection \<open>The order of the dimensions (lines 76-93)\<close>

text \<open>
  The loop of lines 83-88. \<open>j\<close> counts up, \<open>n\<close> is the number of order elements still to
  read, \<open>values\<close> is the bitset. The array \<^verbatim>\<open>dimOrder\<close> starts uninitialised in C++; the
  model starts it with zeros. Line 59 hands \<^verbatim>\<open>Element\<close> the address of the subscript;
  line 84 hands it the subscript itself, by value, and so reads at that many bytes from
  the base address of the order.
\<close>

fun ExtractOrder ::
  "Descriptor \<Rightarrow> nat \<Rightarrow> int \<Rightarrow> nat \<Rightarrow> nat \<Rightarrow> int \<Rightarrow> nat set \<Rightarrow> nat list \<Rightarrow> Failure + nat list" where
  "ExtractOrder order shapeElementBytes resultRank 0 j orderSubscript values dimOrder =
     Inr dimOrder"
| "ExtractOrder order shapeElementBytes resultRank (Suc n) j orderSubscript values dimOrder =
     bindF (GetInt64 (Element_offset order orderSubscript) shapeElementBytes) (\<lambda>k.
     bindF (CHECK ''k >= 1 && k <= resultRank && !values.test(k - 1)''
              (k \<ge> 1 \<and> k \<le> resultRank \<and> nat (k - 1) \<notin> values)) (\<lambda>_.
     ExtractOrder order shapeElementBytes resultRank n (j + 1) (orderSubscript + 1)
       (insert (nat (k - 1)) values) (dimOrder[nat (k - 1) := j])))"

definition DimOrder :: "Descriptor option \<Rightarrow> nat \<Rightarrow> int \<Rightarrow> Failure + nat list" where
  "DimOrder order shapeElementBytes resultRank =
     (case order of
        Some ord \<Rightarrow>
          bindF (CHECK ''order->rank() == 1'' (rank ord = 1)) (\<lambda>_.
          bindF (CHECK ''order->type().IsInteger()'' (IsInteger (type ord))) (\<lambda>_.
          bindF (CHECK ''order->GetDimension(0).Extent() == resultRank''
                   (Extent (GetDimension ord 0) = resultRank)) (\<lambda>_.
          ExtractOrder ord shapeElementBytes resultRank (nat resultRank) 0
            (LowerBound (GetDimension ord 0)) {} (replicate (nat resultRank) 0))))
      | None \<Rightarrow> Inr [0..<nat resultRank])"

subsection \<open>The descriptor of the result (lines 96-117)\<close>

text \<open>
  Modelled from the spec: the accessors \<^verbatim>\<open>LenParameterValue\<close> and
  \<^verbatim>\<open>SetLenParameterValue\<close> of the addendum are not among the sources. They read and
  write the length type parameter with the given index; an index without a parameter is
  an access outside the addendum.
\<close>

definition LenParameterValue :: "DescriptorAddendum \<Rightarrow> nat \<Rightarrow> Failure + int" where
  "LenParameterValue a j = (if j < length (len a) then Inr (len a ! j) else Inl UndefinedBehaviour)"

definition SetLenParameterValue ::
  "DescriptorAddendum \<Rightarrow> nat \<Rightarrow> int \<Rightarrow> Failure + DescriptorAddendum" where
  "SetLenParameterValue a j v =
     (if j < length (len a) then Inr (a\<lparr>len := (len a)[j := v]\<rparr>) else Inl UndefinedBehaviour)"

fun CopyLenParameters ::
  "nat list \<Rightarrow> DescriptorAddendum \<Rightarrow> DescriptorAddendum \<Rightarrow> Failure + DescriptorAddendum" where
  "CopyLenParameters [] sourceAddendum resultAddendum = Inr resultAddendum"
| "CopyLenParameters (j # js) sourceAddendum resultAddendum =
     bindF (LenParameterValue sourceAddendum j) (\<lambda>v.
     bindF (SetLenParameterValue resultAddendum j v) (\<lambda>ra.
     CopyLenParameters js sourceAddendum ra))"

text \<open>The addendum of the source and its derived type, when it has both.\<close>

definition sourceDerived :: "Descriptor \<Rightarrow> (DescriptorAddendum \<times> DerivedType) option" where
  "sourceDerived source =
     (case Addendum source of
        None \<Rightarrow> None
      | Some a \<Rightarrow> (case derivedType a of None \<Rightarrow> None | Some dt \<Rightarrow> Some (a, dt)))"

definition CreateResult ::
  "Runtime \<Rightarrow> Descriptor \<Rightarrow> nat \<Rightarrow> int list \<Rightarrow> nat \<Rightarrow> Failure + Descriptor" where
  "CreateResult rt source resultRank resultExtent elementBytes =
     (let result =
            (case sourceDerived source of
               Some (sourceAddendum, dt) \<Rightarrow>
                 CreateDerived dt resultRank resultExtent CFI_attribute_allocatable
             | None \<Rightarrow>
                 Create rt (type source) elementBytes resultRank resultExtent
                   CFI_attribute_allocatable)
      in case Addendum result of
           None \<Rightarrow> Inl (CheckFailed ''resultAddendum != nullptr'')
         | Some created \<Rightarrow>
             (let resultAddendum = created\<lparr>flags := insert DoNotFinalize (flags created)\<rparr>
              in case sourceDerived source of
                   Some (sourceAddendum, dt) \<Rightarrow>
                     bindF (CopyLenParameters [0..<lenParameters dt] sourceAddendum resultAddendum)
                       (\<lambda>ra. Inr (result\<lparr>Addendum := Some ra\<rparr>))
                 | None \<Rightarrow> Inr (result\<lparr>Addendum := Some resultAddendum\<rparr>)))"

subsection \<open>The transfer of the elements (lines 125-147)\<close>

text \<open>
  The loops of lines 131-136 and 141-146 differ in the descriptor they read only: \<open>from\<close>
  is the source in the first and the pad in the second. \<open>n\<close> is the number of elements
  still to copy.
\<close>

fun TransferLoop ::
  "Descriptor \<Rightarrow> nat list \<Rightarrow> nat \<Rightarrow> nat \<Rightarrow> Descriptor \<Rightarrow> int list \<Rightarrow> int list
     \<Rightarrow> Failure + (Descriptor \<times> int list)" where
  "TransferLoop from dimOrder elementBytes 0 result resultSubscript fromSubscript =
     Inr (result, resultSubscript)"
| "TransferLoop from dimOrder elementBytes (Suc n) result resultSubscript fromSubscript =
     bindF (load (Element from fromSubscript) elementBytes) (\<lambda>bytes.
     bindF (store (Element result resultSubscript) bytes) (\<lambda>mem.
     TransferLoop from dimOrder elementBytes n (result\<lparr>base_addr := mem\<rparr>)
       (IncrementSubscripts result (Some dimOrder) resultSubscript)
       (IncrementSubscripts from None fromSubscript)))"

definition Populate ::
  "Descriptor \<Rightarrow> Descriptor option \<Rightarrow> nat list \<Rightarrow> nat \<Rightarrow> nat \<Rightarrow> nat \<Rightarrow> Descriptor
     \<Rightarrow> Failure + Descriptor" where
  "Populate source pad dimOrder elementBytes resultElements sourceElements result =
     (let elementsFromSource = min resultElements sourceElements
      in bindF (TransferLoop source dimOrder elementBytes elementsFromSource result
                  (GetLowerBounds result) (GetLowerBounds source)) (\<lambda>(result1, resultSubscript).
         if elementsFromSource < resultElements
         then (case pad of
                 None \<Rightarrow> Inl UndefinedBehaviour
               | Some p \<Rightarrow>
                   bindF (TransferLoop p dimOrder elementBytes
                            (resultElements - elementsFromSource) result1 resultSubscript
                            (GetLowerBounds p)) (\<lambda>(result2, _). Inr result2))
         else Inr result1))"

subsection \<open>RESHAPE (lines 42-150)\<close>

definition RESHAPE ::
  "Runtime \<Rightarrow> Descriptor \<Rightarrow> Descriptor \<Rightarrow> Descriptor option \<Rightarrow> Descriptor option
     \<Rightarrow> Failure + Descriptor" where
  "RESHAPE rt source shape pad order =
     bindF (CHECK ''shape.rank() == 1'' (rank shape = 1)) (\<lambda>_.
     bindF (CHECK ''shape.type().IsInteger()'' (IsInteger (type shape))) (\<lambda>_.
     let resultRank = Extent (GetDimension shape 0) in
     bindF (CHECK ''resultRank >= 0 && resultRank <= static_cast<SubscriptValue>(maxRank)''
              (resultRank \<ge> 0 \<and> resultRank \<le> int (maxRank rt))) (\<lambda>_.
     let shapeElementBytes = ElementBytes shape in
     bindF (ExtractShape shape shapeElementBytes (nat resultRank)
              (LowerBound (GetDimension shape 0)) [] 1) (\<lambda>(resultExtent, resultElements).
     let elementBytes = ElementBytes source;
         sourceElements = Elements source in
     bindF (SufficiencyCheck source pad resultElements) (\<lambda>_.
     bindF (DimOrder order shapeElementBytes resultRank) (\<lambda>dimOrder.
     bindF (CreateResult rt source (nat resultRank) resultExtent elementBytes) (\<lambda>created.
     let (status, result) =
           Allocate rt created (replicate (nat resultRank) 1) resultExtent elementBytes in
     if status \<noteq> CFI_SUCCESS then Inl (AllocateFailed status)
     else Populate source pad dimOrder elementBytes resultElements sourceElements result)))))))"

subsection \<open>What the claims speak of\<close>

text \<open>
  The elements of a descriptor as its iteration helpers visit them: \<open>n\<close> elements of
  \<open>elementBytes\<close> bytes each, from the subscripts \<open>subs\<close> on, stepping with
  \<open>IncrementSubscripts\<close> under the permutation given.
\<close>

fun ElementsFrom ::
  "Descriptor \<Rightarrow> nat list option \<Rightarrow> nat \<Rightarrow> nat \<Rightarrow> int list \<Rightarrow> Failure + byte list list" where
  "ElementsFrom d permutation elementBytes 0 subs = Inr []"
| "ElementsFrom d permutation elementBytes (Suc n) subs =
     bindF (load (Element d subs) elementBytes) (\<lambda>x.
     bindF (ElementsFrom d permutation elementBytes n (IncrementSubscripts d permutation subs))
       (\<lambda>xs. Inr (x # xs)))"

definition ElementsInOrder :: "Descriptor \<Rightarrow> nat list option \<Rightarrow> nat \<Rightarrow> Failure + byte list list" where
  "ElementsInOrder d permutation n =
     ElementsFrom d permutation (ElementBytes d) n (GetLowerBounds d)"

text \<open>
  The values of \<open>n\<close> elements of a rank-1 integer descriptor from the subscript \<open>sub\<close>
  on, each decoded at \<open>bytes\<close> bytes.
\<close>

fun DecodedValues :: "Descriptor \<Rightarrow> nat \<Rightarrow> nat \<Rightarrow> int \<Rightarrow> Failure + int list" where
  "DecodedValues d bytes 0 sub = Inr []"
| "DecodedValues d bytes (Suc n) sub =
     bindF (GetInt64 (Element d [sub]) bytes) (\<lambda>k.
     bindF (DecodedValues d bytes n (sub + 1)) (\<lambda>ks. Inr (k # ks)))"

text \<open>
  The \<open>n\<close> integers of \<open>bytes\<close> bytes each that lie at the byte offsets \<open>offset\<close>,
  \<open>offset + 1\<close>, ... from the base address: what the loop of lines 83-88 decodes.
\<close>

fun ValuesAtOffsets :: "Descriptor \<Rightarrow> nat \<Rightarrow> nat \<Rightarrow> int \<Rightarrow> Failure + int list" where
  "ValuesAtOffsets d bytes 0 offset = Inr []"
| "ValuesAtOffsets d bytes (Suc n) offset =
     bindF (GetInt64 (Element_offset d offset) bytes) (\<lambda>k.
     bindF (ValuesAtOffsets d bytes n (offset + 1)) (\<lambda>ks. Inr (k # ks)))"

text \<open>
  The subscripts reached from the lower bounds after \<open>n\<close> steps of \<open>IncrementLoop\<close>
  through the dimensions \<open>ks\<close>.
\<close>

definition Cursor :: "Dimension list \<Rightarrow> nat list \<Rightarrow> nat \<Rightarrow> int list" where
  "Cursor dims ks n = (IncrementLoop dims ks ^^ n) (map LowerBound dims)"

text \<open>
  \<open>ks\<close> names every dimension once and no dimension is empty: the traversals of a
  descriptor with elements.
\<close>

definition Traversal :: "Dimension list \<Rightarrow> nat list \<Rightarrow> bool" where
  "Traversal dims ks =
     (distinct ks \<and> set ks = {..<length dims} \<and> list_all (\<lambda>d. 1 \<le> Extent d) dims)"

text \<open>
  \<open>StoreAll\<close> writes the elements \<open>xs\<close> into the result from the subscripts \<open>rs\<close> on, as
  the two transfer loops do with the elements they read.
\<close>

fun StoreAll ::
  "nat list \<Rightarrow> Descriptor \<Rightarrow> int list \<Rightarrow> byte list list \<Rightarrow> Failure + (Descriptor \<times> int list)" where
  "StoreAll dimOrder result rs [] = Inr (result, rs)"
| "StoreAll dimOrder result rs (x # xs) =
     bindF (store (Element result rs) x) (\<lambda>mem.
     StoreAll dimOrder (result\<lparr>base_addr := mem\<rparr>)
       (IncrementSubscripts result (Some dimOrder) rs) xs)"

subsection \<open>Descriptors for the examples\<close>

text \<open>
  A runtime with \<^verbatim>\<open>maxRank\<close> 15 whose allocator succeeds and whose \<^verbatim>\<open>Create\<close> always
  attaches an addendum, and a rank-1 descriptor with lower bound 1 over given bytes.
\<close>

definition runtime15 :: Runtime where
  "runtime15 = \<lparr>maxRank = 15, CreateAddsAddendum = True, AllocateStatus = 0\<rparr>"

definition vector :: "TypeCode \<Rightarrow> nat \<Rightarrow> byte list \<Rightarrow> Descriptor" where
  "vector t elementBytes bs =
     \<lparr>type = t, elem_len = elementBytes,
      dim = [\<lparr>LowerBound = 1, Extent = int (length bs div elementBytes)\<rparr>],
      base_addr = bs, attribute = CFI_attribute_other, Addendum = None\<rparr>"

text \<open>The same with lower bound 0, as a descriptor made in C has it.\<close>

definition vector0 :: "TypeCode \<Rightarrow> nat \<Rightarrow> byte list \<Rightarrow> Descriptor" where
  "vector0 t elementBytes bs =
     \<lparr>type = t, elem_len = elementBytes,
      dim = [\<lparr>LowerBound = 0, Extent = int (length bs div elementBytes)\<rparr>],
      base_addr = bs, attribute = CFI_attribute_other, Addendum = None\<rparr>"

text \<open>A source of a derived type with two length type parameters, 3 and 7.\<close>

definition pairType :: DerivedType where
  "pairType = \<lparr>name = ''pair'', lenParameters = 2, SizeInBytes = 1\<rparr>"

definition derivedSource :: Descriptor where
  "derivedSource =
     \<lparr>type = TypeDerived, elem_len = 1, dim = [\<lparr>LowerBound = 1, Extent = 6\<rparr>],
      base_addr = [1, 2, 3, 4, 5, 6], attribute = CFI_attribute_other,
      Addendum = Some \<lparr>derivedType = Some pairType, flags = {}, len = [3, 7]\<rparr>\<rparr>"

section \<open>Evaluation\<close>

lemma bindF_Inl [simp]: "bindF (Inl e) f = Inl e"
  by (simp add: bindF_def)

lemma bindF_Inr [simp]: "bindF (Inr x) f = f x"
  by (simp add: bindF_def)

text \<open>Used as a congruence rule, this keeps the simplifier out of a continuation until
  the value it is applied to is known.\<close>

lemma bindF_weak_cong: "m = m' \<Longrightarrow> bindF m f = bindF m' f"
  by simp

lemma ExtractShape_numeral:
  "ExtractShape shape b (numeral k) sub ext els =
     bindF (GetInt64 (Element shape [sub]) b) (\<lambda>v.
     bindF (CHECK ''resultExtent[j] >= 0'' (v \<ge> 0)) (\<lambda>_.
     ExtractShape shape b (pred_numeral k) (sub + 1) (ext @ [v]) ((els * nat v) mod 2 ^ 64)))"
  by (simp only: numeral_eq_Suc ExtractShape.simps)

lemma ExtractOrder_numeral:
  "ExtractOrder ord b r (numeral n) j sub vs dimOrder =
     bindF (GetInt64 (Element_offset ord sub) b) (\<lambda>k.
     bindF (CHECK ''k >= 1 && k <= resultRank && !values.test(k - 1)''
              (k \<ge> 1 \<and> k \<le> r \<and> nat (k - 1) \<notin> vs)) (\<lambda>_.
     ExtractOrder ord b r (pred_numeral n) (j + 1) (sub + 1)
       (insert (nat (k - 1)) vs) (dimOrder[nat (k - 1) := j])))"
  by (simp only: numeral_eq_Suc ExtractOrder.simps)

lemma TransferLoop_numeral:
  "TransferLoop from dimOrder eb (numeral k) res rs fs =
     bindF (load (Element from fs) eb) (\<lambda>bytes.
     bindF (store (Element res rs) bytes) (\<lambda>mem.
     TransferLoop from dimOrder eb (pred_numeral k) (res\<lparr>base_addr := mem\<rparr>)
       (IncrementSubscripts res (Some dimOrder) rs)
       (IncrementSubscripts from None fs)))"
  by (simp only: numeral_eq_Suc TransferLoop.simps)

lemma ElementsFrom_numeral:
  "ElementsFrom d p eb (numeral k) subs =
     bindF (load (Element d subs) eb) (\<lambda>x.
     bindF (ElementsFrom d p eb (pred_numeral k) (IncrementSubscripts d p subs))
       (\<lambda>xs. Inr (x # xs)))"
  by (simp only: numeral_eq_Suc ElementsFrom.simps)

lemma replicate_numeral: "replicate (numeral k) x = x # replicate (pred_numeral k) x"
  by (simp only: numeral_eq_Suc replicate.simps)

lemmas evaluation =
  RESHAPE_def runtime15_def vector_def vector0_def CHECK_def rank_def IsInteger_def GetDimension_def
  ElementBytes_def Element_def Element_offset_def GetInt64_def LoadInt64_def ToInt64_def load_def store_def
  SufficiencyCheck_def Elements_def DimOrder_def CreateResult_def sourceDerived_def
  Create_def CreateDerived_def extentDims_def Allocate_def CFI_SUCCESS_def Populate_def
  GetLowerBounds_def IncrementSubscripts_def UpperBound_def ElementsInOrder_def
  LenParameterValue_def SetLenParameterValue_def
  ExtractShape_numeral ExtractOrder_numeral TransferLoop_numeral ElementsFrom_numeral
  replicate_numeral upt_conv_Cons pairType_def derivedSource_def

section \<open>The integer decoder\<close>

lemma unsigned_value_horner: "unsigned_value bs = horner_sum uint 256 bs"
  by (simp add: unsigned_value_def horner_sum_eq_sum atLeast0LessThan)

lemma horner_uint_bounds:
  "0 \<le> horner_sum uint 256 (bs :: byte list) \<and> horner_sum uint 256 bs < 256 ^ length bs"
proof (induction bs)
  case Nil
  show ?case by simp
next
  case (Cons b bs)
  have b: "0 \<le> uint b" "uint b < 256"
    using uint_lt2p [of b] by simp_all
  from Cons.IH have ih: "0 \<le> horner_sum uint 256 bs" "horner_sum uint 256 bs + 1 \<le> 256 ^ length bs"
    by simp_all
  have "uint b + 256 * horner_sum uint 256 bs < 256 + 256 * horner_sum uint 256 bs"
    using b by simp
  also have "\<dots> = 256 * (horner_sum uint 256 bs + 1)" by simp
  also have "\<dots> \<le> 256 * 256 ^ length bs"
    using ih(2) by (intro mult_left_mono) simp_all
  finally show ?case using b ih by simp
qed

lemma signed_take_bit_window:
  fixes u :: int
  assumes "0 \<le> u" "u < 2 ^ Suc n"
  shows "signed_take_bit n u = (if u < 2 ^ n then u else u - 2 ^ Suc n)"
proof (cases "u < 2 ^ n")
  case True
  then show ?thesis using assms by (simp add: signed_take_bit_int_eq_self)
next
  case False
  have "(u + 2 ^ n) mod 2 ^ Suc n = (u + 2 ^ n - 2 ^ Suc n) mod 2 ^ Suc n"
    by (metis mod_diff_right_eq mod_self diff_zero)
  also have "\<dots> = u + 2 ^ n - 2 ^ Suc n"
    using False assms by (intro mod_pos_pos_trivial) simp_all
  finally show ?thesis
    using False by (simp add: signed_take_bit_eq_take_bit_shift take_bit_eq_mod)
qed

lemma ToInt64_stored_value:
  assumes "8 * length bs = LENGTH('a::len)"
  shows "ToInt64 TYPE('a) bs = stored_value bs"
proof -
  obtain n where n: "LENGTH('a) = Suc n"
    by (metis len_gt_0 gr0_implies_Suc)
  have pw: "(256::int) ^ length bs = 2 ^ (8 * length bs)"
    by (simp add: power_mult)
  have "0 \<le> horner_sum uint 256 bs" "horner_sum uint 256 bs < 2 ^ Suc n"
    using horner_uint_bounds [of bs] assms n pw by simp_all
  then show ?thesis
    using assms n
    by (simp add: ToInt64_def stored_value_def unsigned_value_horner sint_sbintrunc'
        signed_take_bit_window)
qed

lemma ToInt64_range: "- (2 ^ (LENGTH('a::len) - 1)) \<le> ToInt64 TYPE('a) bs \<and> ToInt64 TYPE('a) bs < 2 ^ (LENGTH('a) - 1)"
  by (simp add: ToInt64_def sint_sbintrunc')

lemma LoadInt64_stored_value:
  assumes "8 * n = LENGTH('a::len)"
  shows "LoadInt64 TYPE('a) p = (case load p n of Inl e \<Rightarrow> Inl e | Inr bs \<Rightarrow> Inr (stored_value bs))"
proof (cases "load p n")
  case (Inl e)
  then show ?thesis using assms [symmetric] by (simp add: LoadInt64_def)
next
  case (Inr bs)
  then have "length bs = n"
    by (auto simp: load_def split: if_splits)
  then show ?thesis
    using Inr assms [symmetric] ToInt64_stored_value [of bs, where 'a = 'a]
    by (simp add: LoadInt64_def)
qed

lemma LoadInt64_range:
  assumes "LoadInt64 TYPE('a::len) p = Inr v" "LENGTH('a) \<le> 64"
  shows "- (2 ^ 63) \<le> v \<and> v < 2 ^ 63"
proof -
  from assms(1) obtain bs where v: "v = ToInt64 TYPE('a) bs"
    by (auto simp: LoadInt64_def split: sum.splits)
  have "(2::int) ^ (LENGTH('a) - 1) \<le> 2 ^ 63"
    using assms(2) by (intro power_increasing) simp_all
  then show ?thesis
    using ToInt64_range [of bs, where 'a = 'a] v by simp
qed

text \<open>
  C9. For every pointer and width tag: with a tag among 1, 2, 4 and 8 the decoder reads
  that many bytes and returns the two's complement value stored there, which lies in the
  range of a 64-bit signed integer (an unreadable pointer has no defined behaviour); with
  any other tag it ends in the unreachable-case crash and returns no value.
\<close>

theorem GetInt64_decodes:
  "(bytes \<in> {1, 2, 4, 8} \<longrightarrow>
      GetInt64 p bytes = (case load p bytes of Inl e \<Rightarrow> Inl e | Inr bs \<Rightarrow> Inr (stored_value bs)) \<and>
      (\<forall>v. GetInt64 p bytes = Inr v \<longrightarrow> - (2 ^ 63) \<le> v \<and> v < 2 ^ 63)) \<and>
   (bytes \<notin> {1, 2, 4, 8} \<longrightarrow> GetInt64 p bytes = Inl CrashNoCase)"
proof (intro conjI impI allI)
  assume "bytes \<in> {1, 2, 4, 8}"
  then consider "bytes = 1" | "bytes = 2" | "bytes = 4" | "bytes = 8" by auto
  then show "GetInt64 p bytes = (case load p bytes of Inl e \<Rightarrow> Inl e | Inr bs \<Rightarrow> Inr (stored_value bs))"
  proof cases
    case 1 then show ?thesis using LoadInt64_stored_value [of 1 p, where 'a = 8] by (simp add: GetInt64_def)
  next
    case 2 then show ?thesis using LoadInt64_stored_value [of 2 p, where 'a = 16] by (simp add: GetInt64_def)
  next
    case 3 then show ?thesis using LoadInt64_stored_value [of 4 p, where 'a = 32] by (simp add: GetInt64_def)
  next
    case 4 then show ?thesis using LoadInt64_stored_value [of 8 p, where 'a = 64] by (simp add: GetInt64_def)
  qed
next
  fix v
  assume "bytes \<in> {1, 2, 4, 8}" and "GetInt64 p bytes = Inr v"
  then show "- (2 ^ 63) \<le> v"
    using LoadInt64_range [of p v, where 'a = 8] LoadInt64_range [of p v, where 'a = 16]
      LoadInt64_range [of p v, where 'a = 32] LoadInt64_range [of p v, where 'a = 64]
    by (auto simp: GetInt64_def split: if_splits)
next
  fix v
  assume "bytes \<in> {1, 2, 4, 8}" and "GetInt64 p bytes = Inr v"
  then show "v < 2 ^ 63"
    using LoadInt64_range [of p v, where 'a = 8] LoadInt64_range [of p v, where 'a = 16]
      LoadInt64_range [of p v, where 'a = 32] LoadInt64_range [of p v, where 'a = 64]
    by (auto simp: GetInt64_def split: if_splits)
next
  assume "bytes \<notin> {1, 2, 4, 8}"
  then show "GetInt64 p bytes = Inl CrashNoCase"
    by (simp add: GetInt64_def)
qed

theorem GetInt64_decodes_witness:
  "GetInt64 ([2, 0, 0, 0, 255, 255, 0, 0], 4) 2 = Inr (- 1) \<and>
   GetInt64 ([2, 0, 0, 0, 255, 255, 0, 0], 4) 3 = Inl CrashNoCase"
proof -
  have sv: "stored_value [255, 255] = - 1"
    by (simp add: stored_value_def unsigned_value_horner)
  have ld: "load ([2, 0, 0, 0, 255, 255, 0, 0], 4) 2 = Inr [255, 255]"
    by (simp add: load_def)
  show ?thesis
    using GetInt64_decodes [of 2 "([2, 0, 0, 0, 255, 255, 0, 0], 4)"]
      GetInt64_decodes [of 3 "([2, 0, 0, 0, 255, 255, 0, 0], 4)"]
    by (simp add: sv ld)
qed

section \<open>The stages of RESHAPE\<close>

lemma bindF_eq_Inr: "bindF m f = Inr y \<longleftrightarrow> (\<exists>x. m = Inr x \<and> f x = Inr y)"
  by (cases m) simp_all

lemma CHECK_eq_Inr: "CHECK text ok = Inr u \<longleftrightarrow> ok"
  by (simp add: CHECK_def)

lemma TransferLoop_keeps:
  "TransferLoop from dimOrder eb n res rs fs = Inr (res', rs') \<Longrightarrow>
     Addendum res' = Addendum res \<and> dim res' = dim res \<and> elem_len res' = elem_len res \<and>
     type res' = type res \<and> attribute res' = attribute res"
proof (induction n arbitrary: res rs fs)
  case 0
  then show ?case by simp
next
  case (Suc n)
  from Suc.prems obtain bytes mem where
    "TransferLoop from dimOrder eb n (res\<lparr>base_addr := mem\<rparr>)
       (IncrementSubscripts res (Some dimOrder) rs) (IncrementSubscripts from None fs) = Inr (res', rs')"
    by (auto simp: bindF_eq_Inr)
  from Suc.IH [OF this] show ?case by simp
qed

lemma Populate_keeps:
  assumes "Populate source pad dimOrder eb n m res = Inr res'"
  shows "Addendum res' = Addendum res \<and> dim res' = dim res \<and> elem_len res' = elem_len res \<and>
     type res' = type res \<and> attribute res' = attribute res"
  using assms
  by (auto simp: Populate_def Let_def bindF_eq_Inr split: if_splits option.splits
      dest!: TransferLoop_keeps)

lemma Allocate_keeps:
  "Allocate rt d lb ext eb = (st, d') \<Longrightarrow> Addendum d' = Addendum d \<and> type d' = type d \<and> attribute d' = attribute d"
  by (auto simp: Allocate_def Let_def split: if_splits)

lemma RESHAPE_Inr_stages:
  assumes "RESHAPE rt source shape pad order = Inr r"
  obtains ext els dimOrder created allocated where
    "rank shape = 1" and "IsInteger (type shape)" and
    "0 \<le> Extent (GetDimension shape 0)" and
    "Extent (GetDimension shape 0) \<le> int (maxRank rt)" and
    "ExtractShape shape (ElementBytes shape) (nat (Extent (GetDimension shape 0)))
       (LowerBound (GetDimension shape 0)) [] 1 = Inr (ext, els)" and
    "SufficiencyCheck source pad els = Inr ()" and
    "DimOrder order (ElementBytes shape) (Extent (GetDimension shape 0)) = Inr dimOrder" and
    "CreateResult rt source (nat (Extent (GetDimension shape 0))) ext (ElementBytes source)
       = Inr created" and
    "Allocate rt created (replicate (nat (Extent (GetDimension shape 0))) 1) ext
       (ElementBytes source) = (CFI_SUCCESS, allocated)" and
    "Populate source pad dimOrder (ElementBytes source) els (Elements source) allocated = Inr r"
proof -
  from assms obtain ext els dimOrder created where
    c: "rank shape = 1" "IsInteger (type shape)" "0 \<le> Extent (GetDimension shape 0)"
      "Extent (GetDimension shape 0) \<le> int (maxRank rt)" and
    s: "ExtractShape shape (ElementBytes shape) (nat (Extent (GetDimension shape 0)))
       (LowerBound (GetDimension shape 0)) [] 1 = Inr (ext, els)"
      "SufficiencyCheck source pad els = Inr ()"
      "DimOrder order (ElementBytes shape) (Extent (GetDimension shape 0)) = Inr dimOrder"
      "CreateResult rt source (nat (Extent (GetDimension shape 0))) ext (ElementBytes source)
         = Inr created" and
    a: "(case Allocate rt created (replicate (nat (Extent (GetDimension shape 0))) 1) ext
               (ElementBytes source) of
          (status, result) \<Rightarrow>
            if status \<noteq> CFI_SUCCESS then Inl (AllocateFailed status)
            else Populate source pad dimOrder (ElementBytes source) els (Elements source) result)
        = Inr r"
    by (auto simp: RESHAPE_def Let_def bindF_eq_Inr CHECK_eq_Inr)
  obtain status allocated where
    al: "Allocate rt created (replicate (nat (Extent (GetDimension shape 0))) 1) ext
           (ElementBytes source) = (status, allocated)"
    by (cases "Allocate rt created (replicate (nat (Extent (GetDimension shape 0))) 1) ext
           (ElementBytes source)")
  with a have "status = CFI_SUCCESS" and
    "Populate source pad dimOrder (ElementBytes source) els (Elements source) allocated = Inr r"
    by (auto split: if_splits)
  with c s al show thesis
    by (intro that) simp_all
qed

lemma RESHAPE_from_stages:
  assumes "rank shape = 1" and "IsInteger (type shape)" and
    "0 \<le> Extent (GetDimension shape 0)" and
    "Extent (GetDimension shape 0) \<le> int (maxRank rt)" and
    "ExtractShape shape (ElementBytes shape) (nat (Extent (GetDimension shape 0)))
       (LowerBound (GetDimension shape 0)) [] 1 = Inr (ext, els)" and
    "SufficiencyCheck source pad els = Inr ()" and
    "DimOrder order (ElementBytes shape) (Extent (GetDimension shape 0)) = Inr dimOrder" and
    "CreateResult rt source (nat (Extent (GetDimension shape 0))) ext (ElementBytes source)
       = Inr created" and
    "Allocate rt created (replicate (nat (Extent (GetDimension shape 0))) 1) ext
       (ElementBytes source) = (CFI_SUCCESS, allocated)"
  shows "RESHAPE rt source shape pad order =
           Populate source pad dimOrder (ElementBytes source) els (Elements source) allocated"
  using assms by (simp add: RESHAPE_def Let_def CHECK_def)

lemma CopyLenParameters_result:
  assumes "CopyLenParameters js sa ra = Inr ra'"
  shows "flags ra' = flags ra \<and> derivedType ra' = derivedType ra \<and>
         length (len ra') = length (len ra) \<and>
         (\<forall>j. j \<in> set js \<longrightarrow> j < length (len sa) \<and> j < length (len ra) \<and> len ra' ! j = len sa ! j) \<and>
         (\<forall>j. j \<notin> set js \<longrightarrow> len ra' ! j = len ra ! j)"
  using assms
proof (induction js arbitrary: ra)
  case Nil
  then show ?case by simp
next
  case (Cons j js)
  from Cons.prems obtain v ra1 where
    v: "LenParameterValue sa j = Inr v" and
    r1: "SetLenParameterValue ra j v = Inr ra1" and
    rest: "CopyLenParameters js sa ra1 = Inr ra'"
    by (auto simp: bindF_eq_Inr)
  from v have jv: "j < length (len sa)" "v = len sa ! j"
    by (auto simp: LenParameterValue_def split: if_splits)
  from r1 have jr: "j < length (len ra)" "ra1 = ra\<lparr>len := (len ra)[j := v]\<rparr>"
    by (auto simp: SetLenParameterValue_def split: if_splits)
  from Cons.IH [OF rest] jv jr show ?case
    by (auto simp: nth_list_update)
qed

lemma CreateResult_flag:
  assumes "CreateResult rt source n ext eb = Inr created"
  shows "\<exists>a. Addendum created = Some a \<and> DoNotFinalize \<in> flags a"
  using assms
  by (auto simp: CreateResult_def Let_def bindF_eq_Inr split: option.splits
      dest!: CopyLenParameters_result)

lemma CreateResult_len:
  assumes "CreateResult rt source n ext eb = Inr created"
    and "Addendum source = Some sa"
    and "length (len sa) = (case derivedType sa of None \<Rightarrow> 0 | Some dt \<Rightarrow> lenParameters dt)"
  shows "\<exists>a. Addendum created = Some a \<and> len a = len sa"
proof (cases "derivedType sa")
  case None
  with assms show ?thesis
    by (auto simp: CreateResult_def Let_def sourceDerived_def Create_def split: option.splits if_splits)
next
  case (Some dt)
  with assms(2) have sd: "sourceDerived source = Some (sa, dt)"
    by (simp add: sourceDerived_def)
  from assms(1) sd obtain ra where
    cp: "CopyLenParameters [0..<lenParameters dt] sa
           \<lparr>derivedType = Some dt, flags = {DoNotFinalize}, len = replicate (lenParameters dt) 0\<rparr> = Inr ra" and
    cr: "Addendum created = Some ra"
    by (auto simp: CreateResult_def Let_def CreateDerived_def bindF_eq_Inr)
  from CopyLenParameters_result [OF cp] Some assms(3)
  have "length (len ra) = length (len sa)" and "\<forall>j < length (len sa). len ra ! j = len sa ! j"
    by auto
  then have "len ra = len sa"
    by (intro nth_equalityI) simp_all
  with cr show ?thesis by simp
qed

section \<open>The addendum of the result\<close>

text \<open>
  C10. Whenever RESHAPE returns, the descriptor it returns has an addendum and the
  \<open>DoNotFinalize\<close> flag is set in it, whether or not the source has a derived type. When
  the source has none and \<^verbatim>\<open>Descriptor::Create\<close> gives no addendum, the check
  \<^verbatim>\<open>resultAddendum != nullptr\<close> fails and RESHAPE does not return.
\<close>

theorem RESHAPE_result_not_finalized:
  "(RESHAPE rt source shape pad order = Inr r \<longrightarrow>
      (\<exists>a. Addendum r = Some a \<and> DoNotFinalize \<in> flags a)) \<and>
   (sourceDerived source = None \<and> \<not> CreateAddsAddendum rt \<longrightarrow>
      CreateResult rt source n ext eb = Inl (CheckFailed ''resultAddendum != nullptr'') \<and>
      RESHAPE rt source shape pad order \<noteq> Inr r)"
proof (intro conjI impI)
  assume "RESHAPE rt source shape pad order = Inr r"
  then obtain ext created where
    "CreateResult rt source (nat (Extent (GetDimension shape 0))) ext (ElementBytes source)
       = Inr created"
    and "Addendum r = Addendum created"
    by (elim RESHAPE_Inr_stages) (auto dest!: Populate_keeps Allocate_keeps)
  then show "\<exists>a. Addendum r = Some a \<and> DoNotFinalize \<in> flags a"
    using CreateResult_flag by fastforce
next
  assume a: "sourceDerived source = None \<and> \<not> CreateAddsAddendum rt"
  then show "CreateResult rt source n ext eb = Inl (CheckFailed ''resultAddendum != nullptr'')"
    by (simp add: CreateResult_def Create_def)
  from a have "\<And>n ext eb.
      CreateResult rt source n ext eb = Inl (CheckFailed ''resultAddendum != nullptr'')"
    by (simp add: CreateResult_def Create_def)
  then show "RESHAPE rt source shape pad order \<noteq> Inr r"
    by (auto elim!: RESHAPE_Inr_stages)
qed

theorem RESHAPE_result_not_finalized_witness:
  "\<exists>r a. RESHAPE runtime15 (vector TypeInteger 1 [1, 2, 3, 4, 5, 6])
            (vector TypeInteger 1 [2, 3]) None None = Inr r \<and>
          Addendum r = Some a \<and> DoNotFinalize \<in> flags a \<and>
          CreateResult (runtime15\<lparr>CreateAddsAddendum := False\<rparr>)
            (vector TypeInteger 1 [1, 2, 3, 4, 5, 6]) 2 [2, 3] 1
            = Inl (CheckFailed ''resultAddendum != nullptr'')"
proof -
  have "\<exists>r. RESHAPE runtime15 (vector TypeInteger 1 [1, 2, 3, 4, 5, 6])
              (vector TypeInteger 1 [2, 3]) None None = Inr r"
    by (simp add: evaluation cong: bindF_weak_cong)
  then obtain r where
    r: "RESHAPE runtime15 (vector TypeInteger 1 [1, 2, 3, 4, 5, 6])
          (vector TypeInteger 1 [2, 3]) None None = Inr r" ..
  have nd: "sourceDerived (vector TypeInteger 1 [1, 2, 3, 4, 5, 6]) = None \<and>
            \<not> CreateAddsAddendum (runtime15\<lparr>CreateAddsAddendum := False\<rparr>)"
    by (simp add: sourceDerived_def vector_def)
  from r RESHAPE_result_not_finalized
         [of runtime15 "vector TypeInteger 1 [1, 2, 3, 4, 5, 6]" "vector TypeInteger 1 [2, 3]"
             None None r]
  obtain a where "Addendum r = Some a" "DoNotFinalize \<in> flags a" by blast
  moreover from nd RESHAPE_result_not_finalized
         [of "runtime15\<lparr>CreateAddsAddendum := False\<rparr>" "vector TypeInteger 1 [1, 2, 3, 4, 5, 6]"
             "vector TypeInteger 1 [2, 3]" None None r 2 "[2, 3]" 1]
  have "CreateResult (runtime15\<lparr>CreateAddsAddendum := False\<rparr>)
            (vector TypeInteger 1 [1, 2, 3, 4, 5, 6]) 2 [2, 3] 1
            = Inl (CheckFailed ''resultAddendum != nullptr'')" by blast
  ultimately show ?thesis using r by blast
qed

text \<open>
  C7. When the source has an addendum with K length type parameter values (K being the
  number its derived type declares, or none without a derived type) and RESHAPE returns,
  the addendum of the result holds the same K values in the same order and has its
  \<open>DoNotFinalize\<close> flag set.
\<close>

theorem RESHAPE_copies_len_parameters:
  assumes "Addendum source = Some sa"
    and "length (len sa) = (case derivedType sa of None \<Rightarrow> 0 | Some dt \<Rightarrow> lenParameters dt)"
    and "RESHAPE rt source shape pad order = Inr r"
  shows "\<exists>ra. Addendum r = Some ra \<and> len ra = len sa \<and> DoNotFinalize \<in> flags ra"
proof -
  from assms(3) obtain ext created where
    cr: "CreateResult rt source (nat (Extent (GetDimension shape 0))) ext (ElementBytes source)
           = Inr created"
    and ad: "Addendum r = Addendum created"
    by (elim RESHAPE_Inr_stages) (auto dest!: Populate_keeps Allocate_keeps)
  from CreateResult_flag [OF cr] CreateResult_len [OF cr assms(1,2)] ad
  show ?thesis by auto
qed

theorem RESHAPE_copies_len_parameters_witness:
  "\<exists>r ra. RESHAPE runtime15 derivedSource (vector TypeInteger 1 [2, 3]) None None = Inr r \<and>
           Addendum r = Some ra \<and> len ra = [3, 7] \<and> DoNotFinalize \<in> flags ra"
proof -
  have "\<exists>r. RESHAPE runtime15 derivedSource (vector TypeInteger 1 [2, 3]) None None = Inr r"
    by (simp add: evaluation cong: bindF_weak_cong)
  then obtain r where
    r: "RESHAPE runtime15 derivedSource (vector TypeInteger 1 [2, 3]) None None = Inr r" ..
  have a: "Addendum derivedSource
             = Some \<lparr>derivedType = Some pairType, flags = {}, len = [3, 7]\<rparr>"
    by (simp add: derivedSource_def)
  have k: "length (len \<lparr>derivedType = Some pairType, flags = {}, len = [3, 7]\<rparr>) =
           (case derivedType \<lparr>derivedType = Some pairType, flags = {}, len = [3, 7]\<rparr> of
              None \<Rightarrow> 0 | Some dt \<Rightarrow> lenParameters dt)"
    by (simp add: pairType_def)
  from RESHAPE_copies_len_parameters [OF a k r] r show ?thesis by auto
qed

section \<open>Where the code departs from its description\<close>

text \<open>
  C1. The comment of lines 64-65 asks for enough elements in the source, or else a pad
  that is present and not empty. The test of line 69 is the other way round: it asks for
  the pad when the result has fewer elements than the source. With a source of 6
  elements, the shape [2] and no pad the check \<^verbatim>\<open>padElements > 0\<close> fails, though the
  source suffices. With a source of 2 elements, the shape [4] and no pad no check fails,
  and the transfer goes on to the absent pad.
\<close>

theorem sufficiency_check_reversed:
  "SufficiencyCheck (vector TypeInteger 1 [1, 2, 3, 4, 5, 6]) None 2
     = Inl (CheckFailed ''padElements > 0'') \<and>
   RESHAPE runtime15 (vector TypeInteger 1 [1, 2, 3, 4, 5, 6]) (vector TypeInteger 1 [2])
     None None = Inl (CheckFailed ''padElements > 0'') \<and>
   SufficiencyCheck (vector TypeInteger 1 [1, 2]) None 4 = Inr () \<and>
   RESHAPE runtime15 (vector TypeInteger 1 [1, 2]) (vector TypeInteger 1 [4])
     None None = Inl UndefinedBehaviour"
  by (simp add: evaluation cong: bindF_weak_cong)

text \<open>
  C2. A source of 6 elements reshaped to the shape [2, 2] (4 elements) without pad and
  order does not give the first 4 elements of the source: the reversed test of line 69
  makes the check \<^verbatim>\<open>padElements > 0\<close> fail.
\<close>

theorem shrink_without_pad_fails:
  "RESHAPE runtime15 (vector TypeInteger 1 [1, 2, 3, 4, 5, 6]) (vector TypeInteger 1 [2, 2])
     None None = Inl (CheckFailed ''padElements > 0'')"
  by (simp add: evaluation cong: bindF_weak_cong)

text \<open>
  C3. Line 84 decodes what it reads of the order with \<^verbatim>\<open>shapeElementBytes\<close>, the
  element size of the shape, not with the element size of the order. Take a shape of
  2-byte integers [2, 3] and an order of 1-byte integers [2, 1] with lower bound 0, so
  that the byte offsets 0 and 1 that line 84 reads at are those of the two order
  elements. The first read takes 2 bytes and decodes 258, and the check of line 85 fails;
  read at the width of the order the values are 2 and 1, the permutation that
  \<open>dimOrder = [1, 0]\<close> stands for.
\<close>

theorem order_decoded_at_shape_width:
  "RESHAPE runtime15 (vector TypeInteger 1 [1, 2, 3, 4, 5, 6])
     (vector TypeInteger 2 [2, 0, 3, 0]) None (Some (vector0 TypeInteger 1 [2, 1]))
     = Inl (CheckFailed ''k >= 1 && k <= resultRank && !values.test(k - 1)'') \<and>
   ElementBytes (vector TypeInteger 2 [2, 0, 3, 0]) = 2 \<and>
   ElementBytes (vector0 TypeInteger 1 [2, 1]) = 1 \<and>
   GetInt64 (Element_offset (vector0 TypeInteger 1 [2, 1]) 0) 2 = Inr 258 \<and>
   GetInt64 (Element_offset (vector0 TypeInteger 1 [2, 1]) 0) 1 = Inr 2 \<and>
   GetInt64 (Element_offset (vector0 TypeInteger 1 [2, 1]) 1) 1 = Inr 1 \<and>
   DimOrder (Some (vector0 TypeInteger 1 [2, 1])) 2 2
     = Inl (CheckFailed ''k >= 1 && k <= resultRank && !values.test(k - 1)'') \<and>
   DimOrder (Some (vector0 TypeInteger 1 [2, 1])) 1 2 = Inr [1, 0]"
  by (simp add: evaluation cong: bindF_weak_cong)

text \<open>
  C8. With an empty shape the result has one element. A source of 2 elements and no pad
  should give its first element; the reversed test of line 69 (1 < 2) makes the check
  \<^verbatim>\<open>padElements > 0\<close> fail instead.
\<close>

theorem empty_shape_without_pad_fails:
  "RESHAPE runtime15 (vector TypeInteger 1 [10, 20]) (vector TypeInteger 1 []) None None
     = Inl (CheckFailed ''padElements > 0'')"
  by (simp add: evaluation cong: bindF_weak_cong)

section \<open>The order of the dimensions\<close>

lemma DecodedValues_length: "DecodedValues d b n sub = Inr ks \<Longrightarrow> length ks = n"
  by (induction n arbitrary: sub ks) (auto simp: bindF_eq_Inr)

lemma DecodedValues_numeral:
  "DecodedValues d b (numeral n) sub =
     bindF (GetInt64 (Element d [sub]) b) (\<lambda>k.
     bindF (DecodedValues d b (pred_numeral n) (sub + 1)) (\<lambda>ks. Inr (k # ks)))"
  by (simp only: numeral_eq_Suc DecodedValues.simps)

lemma nat_pred_eq: "1 \<le> k \<Longrightarrow> 1 \<le> k' \<Longrightarrow> nat (k - 1) = nat (k' - 1) \<longleftrightarrow> k = k'"
  for k k' :: int
  by auto

lemma ValuesAtOffsets_length: "ValuesAtOffsets d b n off = Inr ks \<Longrightarrow> length ks = n"
  by (induction n arbitrary: off ks) (auto simp: bindF_eq_Inr)

lemma ExtractOrder_accepts:
  assumes "ValuesAtOffsets ord b n sub = Inr ks"
    and "distinct ks"
    and "\<forall>k \<in> set ks. 1 \<le> k \<and> k \<le> r \<and> nat (k - 1) \<notin> vs \<and> nat (k - 1) < length dimOrder"
  shows "\<exists>d. ExtractOrder ord b r n j sub vs dimOrder = Inr d \<and> length d = length dimOrder \<and>
              (\<forall>i < length ks. d ! nat (ks ! i - 1) = j + i) \<and>
              (\<forall>m. m \<notin> (\<lambda>k. nat (k - 1)) ` set ks \<longrightarrow> d ! m = dimOrder ! m)"
  using assms
proof (induction n arbitrary: sub ks j vs dimOrder)
  case 0
  then show ?case by simp
next
  case (Suc n)
  from Suc.prems(1) obtain k ks' where
    k: "GetInt64 (Element_offset ord sub) b = Inr k" and
    ks': "ValuesAtOffsets ord b n (sub + 1) = Inr ks'" and
    ks: "ks = k # ks'"
    by (auto simp: bindF_eq_Inr)
  from Suc.prems(2,3) ks have
    ok: "1 \<le> k" "k \<le> r" "nat (k - 1) \<notin> vs" "nat (k - 1) < length dimOrder" and
    d': "distinct ks'" and knot: "k \<notin> set ks'" and
    all': "\<forall>k' \<in> set ks'. 1 \<le> k' \<and> k' \<le> r \<and> nat (k' - 1) \<notin> vs \<and> nat (k' - 1) < length dimOrder"
    by auto
  have notin: "nat (k - 1) \<notin> (\<lambda>k. nat (k - 1)) ` set ks'"
  proof
    assume "nat (k - 1) \<in> (\<lambda>k. nat (k - 1)) ` set ks'"
    then obtain k' where k': "k' \<in> set ks'" "nat (k - 1) = nat (k' - 1)" by auto
    with all' have "1 \<le> k'" by simp
    with k'(2) ok(1) have "k = k'" by (simp add: nat_pred_eq)
    with k'(1) knot show False by simp
  qed
  then have "\<forall>k' \<in> set ks'. nat (k' - 1) \<noteq> nat (k - 1)"
    by (metis imageI)
  with all' have
    "\<forall>k' \<in> set ks'. 1 \<le> k' \<and> k' \<le> r \<and> nat (k' - 1) \<notin> insert (nat (k - 1)) vs \<and>
        nat (k' - 1) < length (dimOrder[nat (k - 1) := j])"
    by auto
  from Suc.IH [OF ks' d' this, of "j + 1"] obtain d where
    d: "ExtractOrder ord b r n (j + 1) (sub + 1) (insert (nat (k - 1)) vs)
          (dimOrder[nat (k - 1) := j]) = Inr d"
      "length d = length dimOrder"
      "\<forall>i < length ks'. d ! nat (ks' ! i - 1) = j + 1 + i"
      "\<forall>m. m \<notin> (\<lambda>k. nat (k - 1)) ` set ks' \<longrightarrow> d ! m = (dimOrder[nat (k - 1) := j]) ! m"
    by auto
  have first: "d ! nat (k - 1) = j"
    using d(4) notin ok(4) by simp
  have run: "ExtractOrder ord b r (Suc n) j sub vs dimOrder = Inr d"
    using k ok d(1) by (simp add: CHECK_def)
  have idx: "\<forall>i < length ks. d ! nat (ks ! i - 1) = j + i"
  proof (intro allI impI)
    fix i assume "i < length ks"
    then show "d ! nat (ks ! i - 1) = j + i"
      using first d(3) ks by (cases i) auto
  qed
  have other: "\<forall>m. m \<notin> (\<lambda>k. nat (k - 1)) ` set ks \<longrightarrow> d ! m = dimOrder ! m"
    using d(4) ks by auto
  from run d(2) idx other show ?case by blast
qed

lemma ExtractOrder_rejects:
  assumes "ValuesAtOffsets ord b n sub = Inr ks"
    and "\<not> (distinct ks \<and> (\<forall>k \<in> set ks. 1 \<le> k \<and> k \<le> r \<and> nat (k - 1) \<notin> vs))"
  shows "ExtractOrder ord b r n j sub vs dimOrder =
           Inl (CheckFailed ''k >= 1 && k <= resultRank && !values.test(k - 1)'')"
  using assms
proof (induction n arbitrary: sub ks j vs dimOrder)
  case 0
  then show ?case by simp
next
  case (Suc n)
  from Suc.prems(1) obtain k ks' where
    k: "GetInt64 (Element_offset ord sub) b = Inr k" and
    ks': "ValuesAtOffsets ord b n (sub + 1) = Inr ks'" and
    ks: "ks = k # ks'"
    by (auto simp: bindF_eq_Inr)
  show ?case
  proof (cases "1 \<le> k \<and> k \<le> r \<and> nat (k - 1) \<notin> vs")
    case False
    then show ?thesis using k by (auto simp: CHECK_def)
  next
    case True
    have "\<not> (distinct ks' \<and>
              (\<forall>k' \<in> set ks'. 1 \<le> k' \<and> k' \<le> r \<and> nat (k' - 1) \<notin> insert (nat (k - 1)) vs))"
    proof
      assume a: "distinct ks' \<and>
              (\<forall>k' \<in> set ks'. 1 \<le> k' \<and> k' \<le> r \<and> nat (k' - 1) \<notin> insert (nat (k - 1)) vs)"
      then have "k \<notin> set ks'" by auto
      with a True ks Suc.prems(2) show False by auto
    qed
    from Suc.IH [OF ks' this] True k show ?thesis
      by (simp add: CHECK_def)
  qed
qed

text \<open>
  C6. Line 84 hands \<^verbatim>\<open>Element\<close> the subscript by value, where line 59 hands it the
  address of the subscript, and so reads at the byte offset \<open>orderSubscript\<close>, not the
  element with that subscript. Take a shape of 4-byte integers [2, 2, 2] and an order of
  4-byte integers with lower bound 1 whose elements are 2, 1, 3, each a value between 1
  and 3 and no two alike. The first read is at byte offset 1, takes the bytes 0, 0, 0, 1
  and decodes 16777216: the check of line 85 fails and no \<open>dimOrder\<close> is built.
\<close>

theorem order_read_at_byte_offsets:
  "RESHAPE runtime15 (vector TypeInteger 1 [1, 2, 3, 4, 5, 6, 7, 8])
     (vector TypeInteger 4 [2, 0, 0, 0, 2, 0, 0, 0, 2, 0, 0, 0]) None
     (Some (vector TypeInteger 4 [2, 0, 0, 0, 1, 0, 0, 0, 3, 0, 0, 0]))
     = Inl (CheckFailed ''k >= 1 && k <= resultRank && !values.test(k - 1)'') \<and>
   DecodedValues (vector TypeInteger 4 [2, 0, 0, 0, 1, 0, 0, 0, 3, 0, 0, 0]) 4 3 1
     = Inr [2, 1, 3] \<and>
   LowerBound (GetDimension (vector TypeInteger 4 [2, 0, 0, 0, 1, 0, 0, 0, 3, 0, 0, 0]) 0) = 1 \<and>
   GetInt64 (Element_offset (vector TypeInteger 4 [2, 0, 0, 0, 1, 0, 0, 0, 3, 0, 0, 0]) 1) 4
     = Inr 16777216 \<and>
   DimOrder (Some (vector TypeInteger 4 [2, 0, 0, 0, 1, 0, 0, 0, 3, 0, 0, 0])) 4 3
     = Inl (CheckFailed ''k >= 1 && k <= resultRank && !values.test(k - 1)'')"
  by (simp add: evaluation DecodedValues_numeral cong: bindF_weak_cong)

section \<open>Stepping through the subscripts\<close>

text \<open>
  \<open>IncrementLoop\<close> counts in a mixed radix: it adds one to the position of the subscripts
  among the dimensions it steps through, and after the last position it is back at the
  lower bounds.
\<close>

lemma ElementIndex_update_other:
  "k \<notin> set ks \<Longrightarrow> ElementIndex dims ks (subs[k := v]) = ElementIndex dims ks subs"
  by (induction ks) auto

lemma IncrementLoop_length [simp]: "length (IncrementLoop dims ks subs) = length subs"
  by (induction ks arbitrary: subs) auto

lemma IncrementLoop_other:
  "m \<notin> set ks \<Longrightarrow> IncrementLoop dims ks subs ! m = subs ! m"
  by (induction ks arbitrary: subs) auto

lemma radix_step:
  fixes a e E T :: int
  assumes "0 \<le> a" "a < e" "0 \<le> E" "E < T"
  shows "0 \<le> a + e * E" and "a + e * E < e * T"
proof -
  show "0 \<le> a + e * E" using assms by simp
  have "e * (E + 1) \<le> e * T"
    using assms by (intro mult_left_mono) simp_all
  then show "a + e * E < e * T"
    using assms by (simp add: algebra_simps)
qed

lemma IncrementLoop_step:
  assumes "distinct ks"
    and "\<forall>k \<in> set ks. k < length subs \<and> LowerBound (dims ! k) \<le> subs ! k \<and>
           subs ! k \<le> UpperBound (dims ! k)"
  shows "0 \<le> ElementIndex dims ks subs \<and>
         ElementIndex dims ks subs < prod_list (map (\<lambda>k. Extent (dims ! k)) ks) \<and>
         (ElementIndex dims ks subs + 1 < prod_list (map (\<lambda>k. Extent (dims ! k)) ks) \<longrightarrow>
            ElementIndex dims ks (IncrementLoop dims ks subs) = ElementIndex dims ks subs + 1) \<and>
         (ElementIndex dims ks subs + 1 = prod_list (map (\<lambda>k. Extent (dims ! k)) ks) \<longrightarrow>
            (\<forall>k \<in> set ks. IncrementLoop dims ks subs ! k = LowerBound (dims ! k))) \<and>
         (\<forall>k \<in> set ks. LowerBound (dims ! k) \<le> IncrementLoop dims ks subs ! k \<and>
            IncrementLoop dims ks subs ! k \<le> UpperBound (dims ! k))"
  using assms
proof (induction ks arbitrary: subs)
  case Nil
  then show ?case by simp
next
  case (Cons k ks)
  let ?e = "Extent (dims ! k)"
  let ?lb = "LowerBound (dims ! k)"
  let ?T = "prod_list (map (\<lambda>k. Extent (dims ! k)) ks)"
  let ?E = "ElementIndex dims ks subs"
  from Cons.prems have k: "k \<notin> set ks" "distinct ks" "k < length subs"
    "?lb \<le> subs ! k" "subs ! k \<le> UpperBound (dims ! k)"
    by auto
  from Cons.prems have rest: "\<forall>k' \<in> set ks. k' < length subs \<and>
      LowerBound (dims ! k') \<le> subs ! k' \<and> subs ! k' \<le> UpperBound (dims ! k')"
    by auto
  from Cons.IH [OF k(2) rest] have E: "0 \<le> ?E" "?E < ?T" by simp_all
  have a: "0 \<le> subs ! k - ?lb" "subs ! k - ?lb < ?e"
    using k(4,5) by (simp_all add: UpperBound_def)
  have bounds: "0 \<le> ElementIndex dims (k # ks) subs"
    "ElementIndex dims (k # ks) subs < prod_list (map (\<lambda>k. Extent (dims ! k)) (k # ks))"
    using radix_step [OF a E] by simp_all
  show ?case
  proof (cases "subs ! k < UpperBound (dims ! k)")
    case True
    let ?s = "subs[k := subs ! k + 1]"
    have inc: "IncrementLoop dims (k # ks) subs = ?s" using True by simp
    have idx: "ElementIndex dims (k # ks) ?s = ElementIndex dims (k # ks) subs + 1"
      using k(1,3) by (simp add: ElementIndex_update_other)
    have inb: "\<forall>k' \<in> set (k # ks). LowerBound (dims ! k') \<le> ?s ! k' \<and> ?s ! k' \<le> UpperBound (dims ! k')"
      using True k rest by (auto simp: nth_list_update)
    have notlast: "ElementIndex dims (k # ks) subs + 1 \<noteq> prod_list (map (\<lambda>k. Extent (dims ! k)) (k # ks))"
    proof -
      have "subs ! k - ?lb + 1 < ?e" using True by (simp add: UpperBound_def)
      moreover have "0 \<le> subs ! k - ?lb + 1" using a by simp
      ultimately have "subs ! k - ?lb + 1 + ?e * ?E < ?e * ?T"
        using radix_step(2) [of "subs ! k - ?lb + 1" ?e ?E ?T] E by simp
      then show ?thesis by simp
    qed
    from bounds inc idx inb notlast show ?thesis by simp
  next
    case False
    with k(5) have top: "subs ! k = UpperBound (dims ! k)" by simp
    let ?z = "subs[k := ?lb]"
    let ?s = "IncrementLoop dims ks ?z"
    have inc: "IncrementLoop dims (k # ks) subs = ?s" using False by simp
    have rest0: "\<forall>k' \<in> set ks. k' < length ?z \<and>
        LowerBound (dims ! k') \<le> ?z ! k' \<and> ?z ! k' \<le> UpperBound (dims ! k')"
      using rest k(1,3) by (auto simp: nth_list_update)
    have E0: "ElementIndex dims ks ?z = ?E"
      using k(1) by (simp add: ElementIndex_update_other)
    have ih: "(?E + 1 < ?T \<longrightarrow> ElementIndex dims ks ?s = ?E + 1) \<and>
        (?E + 1 = ?T \<longrightarrow> (\<forall>k' \<in> set ks. ?s ! k' = LowerBound (dims ! k'))) \<and>
        (\<forall>k' \<in> set ks. LowerBound (dims ! k') \<le> ?s ! k' \<and> ?s ! k' \<le> UpperBound (dims ! k'))"
      using Cons.IH [OF k(2) rest0] E0 by simp
    have sk: "?s ! k = ?lb"
      using k(1,3) by (simp add: IncrementLoop_other)
    have epos: "1 \<le> ?e" using a by simp
    have whole: "ElementIndex dims (k # ks) subs + 1 = ?e * (?E + 1)"
      using top by (simp add: UpperBound_def algebra_simps)
    have step: "ElementIndex dims (k # ks) subs + 1 < prod_list (map (\<lambda>k. Extent (dims ! k)) (k # ks)) \<longrightarrow>
            ElementIndex dims (k # ks) ?s = ElementIndex dims (k # ks) subs + 1"
    proof
      assume "ElementIndex dims (k # ks) subs + 1 < prod_list (map (\<lambda>k. Extent (dims ! k)) (k # ks))"
      with whole have "?e * (?E + 1) < ?e * ?T" by simp
      with epos have "?E + 1 < ?T" by (simp add: mult_less_cancel_left)
      with ih have "ElementIndex dims ks ?s = ?E + 1" by simp
      with sk whole show "ElementIndex dims (k # ks) ?s = ElementIndex dims (k # ks) subs + 1"
        by simp
    qed
    have wrap: "ElementIndex dims (k # ks) subs + 1 = prod_list (map (\<lambda>k. Extent (dims ! k)) (k # ks)) \<longrightarrow>
            (\<forall>k' \<in> set (k # ks). ?s ! k' = LowerBound (dims ! k'))"
    proof
      assume "ElementIndex dims (k # ks) subs + 1 = prod_list (map (\<lambda>k. Extent (dims ! k)) (k # ks))"
      with whole have "?e * (?E + 1) = ?e * ?T" by simp
      with epos have "?E + 1 = ?T" by simp
      with ih sk show "\<forall>k' \<in> set (k # ks). ?s ! k' = LowerBound (dims ! k')" by simp
    qed
    have inb: "\<forall>k' \<in> set (k # ks). LowerBound (dims ! k') \<le> ?s ! k' \<and> ?s ! k' \<le> UpperBound (dims ! k')"
      using ih sk k(4,5) by auto
    from bounds inc step wrap inb show ?thesis by simp
  qed
qed

lemma radix_unique:
  fixes a a' e E E' :: int
  assumes "0 \<le> a" "a < e" "0 \<le> a'" "a' < e" "a + e * E = a' + e * E'"
  shows "a = a' \<and> E = E'"
proof -
  have "a = (a + e * E) mod e"
    using assms(1,2) by simp
  also have "\<dots> = (a' + e * E') mod e"
    by (simp only: assms(5))
  also have "\<dots> = a'"
    using assms(3,4) by simp
  finally have "a = a'" .
  with assms show ?thesis by simp
qed

lemma ElementIndex_unique:
  assumes "\<forall>k \<in> set ks. LowerBound (dims ! k) \<le> s ! k \<and> s ! k \<le> UpperBound (dims ! k)"
    and "\<forall>k \<in> set ks. LowerBound (dims ! k) \<le> s' ! k \<and> s' ! k \<le> UpperBound (dims ! k)"
    and "ElementIndex dims ks s = ElementIndex dims ks s'"
  shows "\<forall>k \<in> set ks. s ! k = s' ! k"
  using assms
proof (induction ks)
  case Nil
  then show ?case by simp
next
  case (Cons k ks)
  have "s ! k - LowerBound (dims ! k) = s' ! k - LowerBound (dims ! k) \<and>
        ElementIndex dims ks s = ElementIndex dims ks s'"
    using Cons.prems
    by (intro radix_unique [where e = "Extent (dims ! k)"]) (simp_all add: UpperBound_def)
  with Cons show ?case by simp
qed


lemma ElementIndex_at_lower:
  "\<forall>k \<in> set ks. s ! k = LowerBound (dims ! k) \<Longrightarrow> ElementIndex dims ks s = 0"
  by (induction ks) auto

lemma prod_list_nat_Extent:
  "list_all (\<lambda>d. 0 \<le> Extent d) dims \<Longrightarrow>
     int (prod_list (map (\<lambda>x. nat (Extent x)) dims)) = prod_list (map Extent dims)"
  by (induction dims) auto

lemma prod_list_Traversal:
  assumes "Traversal dims ks"
  shows "prod_list (map (\<lambda>k. Extent (dims ! k)) ks) = prod_list (map Extent dims)"
proof -
  have d: "distinct ks" and s: "set ks = set [0..<length dims]"
    using assms by (simp_all add: Traversal_def atLeast0LessThan)
  have "prod_list (map (\<lambda>k. Extent (dims ! k)) ks) = prod (\<lambda>k. Extent (dims ! k)) (set ks)"
    using d by (rule prod.distinct_set_conv_list [symmetric])
  also have "\<dots> = prod (\<lambda>k. Extent (dims ! k)) (set [0..<length dims])"
    by (simp only: s)
  also have "\<dots> = prod_list (map (\<lambda>k. Extent (dims ! k)) [0..<length dims])"
    by (rule prod.distinct_set_conv_list) simp
  also have "map (\<lambda>k. Extent (dims ! k)) [0..<length dims] = map Extent dims"
    by (intro nth_equalityI) simp_all
  finally show ?thesis .
qed

lemma Traversal_natural: "list_all (\<lambda>d. 1 \<le> Extent d) dims \<Longrightarrow> Traversal dims [0..<length dims]"
  by (auto simp: Traversal_def)

lemma prod_list_Extent_pos:
  "list_all (\<lambda>d. 1 \<le> Extent d) dims \<Longrightarrow> 1 \<le> prod_list (map Extent dims)"
  for dims :: "Dimension list"
proof (induction dims)
  case Nil
  show ?case by simp
next
  case (Cons d dims)
  then have "1 * 1 \<le> Extent d * prod_list (map Extent dims)"
    by (intro mult_mono) simp_all
  then show ?case by simp
qed

lemma Traversal_cells_pos:
  "Traversal dims ks \<Longrightarrow> 1 \<le> prod_list (map Extent dims)"
  by (simp add: Traversal_def prod_list_Extent_pos)

text \<open>Where the cursor stands after \<open>n\<close> steps.\<close>

lemma Cursor_0 [simp]: "Cursor dims ks 0 = map LowerBound dims"
  by (simp add: Cursor_def)

lemma Cursor_Suc [simp]: "Cursor dims ks (Suc n) = IncrementLoop dims ks (Cursor dims ks n)"
  by (simp add: Cursor_def)

lemma Cursor_length [simp]: "length (Cursor dims ks n) = length dims"
  by (induction n) simp_all

lemma Cursor_position:
  assumes "Traversal dims ks"
  shows "(\<forall>k < length dims. LowerBound (dims ! k) \<le> Cursor dims ks n ! k \<and>
            Cursor dims ks n ! k \<le> UpperBound (dims ! k)) \<and>
         ElementIndex dims ks (Cursor dims ks n) = int n mod prod_list (map Extent dims)"
proof (induction n)
  case 0
  have "\<forall>k < length dims. 1 \<le> Extent (dims ! k)"
    using assms by (simp add: Traversal_def list_all_length)
  then have "\<forall>k < length dims. LowerBound (dims ! k) \<le> map LowerBound dims ! k \<and>
      map LowerBound dims ! k \<le> UpperBound (dims ! k)"
    by (auto simp: UpperBound_def)
  moreover have "ElementIndex dims ks (map LowerBound dims) = 0"
    using assms by (intro ElementIndex_at_lower) (auto simp: Traversal_def)
  ultimately show ?case by simp
next
  case (Suc n)
  let ?c = "Cursor dims ks n"
  let ?T = "prod_list (map Extent dims)"
  have T: "prod_list (map (\<lambda>k. Extent (dims ! k)) ks) = ?T"
    using assms by (rule prod_list_Traversal)
  have ks: "distinct ks" "set ks = {..<length dims}"
    using assms by (simp_all add: Traversal_def)
  from Suc.IH ks have inb: "\<forall>k \<in> set ks. k < length ?c \<and> LowerBound (dims ! k) \<le> ?c ! k \<and>
      ?c ! k \<le> UpperBound (dims ! k)"
    by simp
  note step = IncrementLoop_step [OF ks(1) inb, unfolded T]
  from Suc.IH have E: "ElementIndex dims ks ?c = int n mod ?T" by simp
  from step have inb': "\<forall>k < length dims. LowerBound (dims ! k) \<le> Cursor dims ks (Suc n) ! k \<and>
      Cursor dims ks (Suc n) ! k \<le> UpperBound (dims ! k)"
    using ks by simp
  have Tpos: "0 < ?T" using Traversal_cells_pos [OF assms] by simp
  have "ElementIndex dims ks (Cursor dims ks (Suc n)) = int (Suc n) mod ?T"
  proof (cases "int n mod ?T + 1 < ?T")
    case True
    with step E have "ElementIndex dims ks (Cursor dims ks (Suc n)) = int n mod ?T + 1"
      by simp
    also have "\<dots> = (int n + 1) mod ?T"
      using True Tpos by (metis mod_add_left_eq mod_pos_pos_trivial add_nonneg_nonneg
          pos_mod_sign zero_le_one)
    finally show ?thesis by (simp add: add.commute)
  next
    case False
    with step E Tpos have last: "int n mod ?T + 1 = ?T"
      by (metis add1_zle_eq order_le_less pos_mod_bound)
    with step E have "\<forall>k \<in> set ks. Cursor dims ks (Suc n) ! k = LowerBound (dims ! k)"
      by simp
    then have "ElementIndex dims ks (Cursor dims ks (Suc n)) = 0"
      by (rule ElementIndex_at_lower)
    moreover have "(int n + 1) mod ?T = 0"
      using last by (metis mod_add_left_eq mod_self)
    ultimately show ?thesis by (simp add: add.commute)
  qed
  with inb' show ?case by simp
qed

lemma Cursor_wraps:
  assumes "Traversal dims ks" and "int n mod prod_list (map Extent dims) + 1 = prod_list (map Extent dims)"
  shows "Cursor dims ks (Suc n) = map LowerBound dims"
proof -
  let ?c = "Cursor dims ks n"
  have T: "prod_list (map (\<lambda>k. Extent (dims ! k)) ks) = prod_list (map Extent dims)"
    using assms(1) by (rule prod_list_Traversal)
  have ks: "distinct ks" "set ks = {..<length dims}"
    using assms(1) by (simp_all add: Traversal_def)
  from Cursor_position [OF assms(1), of n] ks
  have inb: "\<forall>k \<in> set ks. k < length ?c \<and> LowerBound (dims ! k) \<le> ?c ! k \<and>
      ?c ! k \<le> UpperBound (dims ! k)"
    and E: "ElementIndex dims ks ?c = int n mod prod_list (map Extent dims)"
    by simp_all
  from IncrementLoop_step [OF ks(1) inb, unfolded T] E assms(2) ks
  have "\<forall>k < length dims. Cursor dims ks (Suc n) ! k = LowerBound (dims ! k)"
    by simp
  then show ?thesis
    by (intro nth_equalityI) simp_all
qed

lemma Cursor_periodic:
  assumes "Traversal dims ks"
  shows "Cursor dims ks n = Cursor dims ks (n mod nat (prod_list (map Extent dims)))"
proof (induction n)
  case 0
  show ?case by simp
next
  case (Suc n)
  let ?T = "prod_list (map Extent dims)"
  have Tpos: "0 < ?T" using Traversal_cells_pos [OF assms] by simp
  have m: "int (n mod nat ?T) = int n mod ?T"
    using Tpos by (simp add: zmod_int)
  show ?case
  proof (cases "Suc (n mod nat ?T) = nat ?T")
    case True
    then have "int n mod ?T + 1 = ?T" using m Tpos by linarith
    from Cursor_wraps [OF assms this] have "Cursor dims ks (Suc n) = map LowerBound dims" .
    moreover from True have "Suc n mod nat ?T = 0"
      by (metis mod_Suc)
    ultimately show ?thesis by simp
  next
    case False
    then have "Suc n mod nat ?T = Suc (n mod nat ?T)"
      by (simp add: mod_Suc)
    with Suc.IH show ?thesis by simp
  qed
qed

lemma Cursor_inject:
  assumes "Traversal dims ks" and "int n < prod_list (map Extent dims)"
    and "int m < prod_list (map Extent dims)"
    and "ElementIndex dims [0..<length dims] (Cursor dims ks n) =
         ElementIndex dims [0..<length dims] (Cursor dims ks m)"
  shows "n = m"
proof -
  from Cursor_position [OF assms(1)] have
    inb: "\<And>n. \<forall>k \<in> set [0..<length dims]. LowerBound (dims ! k) \<le> Cursor dims ks n ! k \<and>
            Cursor dims ks n ! k \<le> UpperBound (dims ! k)"
    by simp
  from ElementIndex_unique [OF inb inb assms(4)]
  have "Cursor dims ks n = Cursor dims ks m"
    by (intro nth_equalityI) simp_all
  then have "ElementIndex dims ks (Cursor dims ks n) = ElementIndex dims ks (Cursor dims ks m)"
    by simp
  with Cursor_position [OF assms(1)] have "int n mod prod_list (map Extent dims) =
      int m mod prod_list (map Extent dims)"
    by simp
  with assms(2,3) show ?thesis by simp
qed

lemma Cursor_cell_bounds:
  assumes "Traversal dims ks"
  shows "0 \<le> ElementIndex dims [0..<length dims] (Cursor dims ks n) \<and>
         ElementIndex dims [0..<length dims] (Cursor dims ks n) < prod_list (map Extent dims)"
proof -
  have "list_all (\<lambda>d. 1 \<le> Extent d) dims"
    using assms by (simp add: Traversal_def)
  then have nat: "Traversal dims [0..<length dims]"
    by (rule Traversal_natural)
  have inb: "\<forall>k \<in> set [0..<length dims]. k < length (Cursor dims ks n) \<and>
            LowerBound (dims ! k) \<le> Cursor dims ks n ! k \<and>
            Cursor dims ks n ! k \<le> UpperBound (dims ! k)"
    using Cursor_position [OF assms, of n] by simp
  have "distinct [0..<length dims]" by simp
  from IncrementLoop_step [OF this inb, THEN conjunct1]
    IncrementLoop_step [OF this inb, THEN conjunct2, THEN conjunct1]
  show ?thesis
    by (simp only: prod_list_Traversal [OF nat])
qed

section \<open>Raw storage\<close>

lemma store_length: "store p bs = Inr m \<Longrightarrow> length m = length (fst p)"
  by (auto simp: store_def split: if_splits)

lemma load_store_same:
  assumes "store (mem, off) bs = Inr m"
  shows "load (m, off) (length bs) = Inr bs"
  using assms by (auto simp: store_def load_def split: if_splits)

lemma store_nth:
  assumes "store (mem, int a) bs = Inr m" and "i < length mem"
  shows "m ! i = (if a \<le> i \<and> i < a + length bs then bs ! (i - a) else mem ! i)"
  using assms by (auto simp: store_def nth_append split: if_splits)

lemma cells_apart:
  fixes c c' eb :: nat
  assumes "c \<noteq> c'"
  shows "eb * c' + eb \<le> eb * c \<or> eb * c + eb \<le> eb * c'"
proof (cases "c' < c")
  case True
  then have "eb * Suc c' \<le> eb * c" by (intro mult_le_mono2) simp
  then show ?thesis by simp
next
  case False
  with assms have "eb * Suc c \<le> eb * c'" by (intro mult_le_mono2) simp
  then show ?thesis by simp
qed

lemma load_store_other:
  assumes "store (mem, int (eb * c)) bs = Inr m" and "length bs = eb" and "c \<noteq> c'"
  shows "load (m, int (eb * c')) eb = load (mem, int (eb * c')) eb"
proof (cases "eb * c' + eb \<le> length mem")
  case False
  with store_length [OF assms(1)] show ?thesis by (simp add: load_def del: of_nat_mult)
next
  case True
  have len: "length m = length mem" using store_length [OF assms(1)] by simp
  have "take eb (drop (eb * c') m) = take eb (drop (eb * c') mem)"
  proof (intro nth_equalityI)
    show "length (take eb (drop (eb * c') m)) = length (take eb (drop (eb * c') mem))"
      using len by simp
  next
    fix i assume "i < length (take eb (drop (eb * c') m))"
    then have i: "i < eb" by simp
    with True have "eb * c' + i < length mem" by simp
    from store_nth [OF assms(1) this] cells_apart [OF assms(3), of eb] i assms(2)
    have "m ! (eb * c' + i) = mem ! (eb * c' + i)" by auto
    with i True len show "take eb (drop (eb * c') m) ! i = take eb (drop (eb * c') mem) ! i"
      by simp
  qed
  with True len show ?thesis by (simp add: load_def del: of_nat_mult)
qed

section \<open>The transfer loops\<close>

lemma TransferLoop_StoreAll:
  "ElementsFrom from None eb n fs = Inr xs \<Longrightarrow>
     TransferLoop from dimOrder eb n res rs fs = StoreAll dimOrder res rs xs"
proof (induction n arbitrary: res rs fs xs)
  case 0
  then show ?case by simp
next
  case (Suc n)
  from Suc.prems obtain x xs' where
    x: "load (Element from fs) eb = Inr x" and
    xs': "ElementsFrom from None eb n (IncrementSubscripts from None fs) = Inr xs'" and
    xs: "xs = x # xs'"
    by (auto simp: bindF_eq_Inr)
  show ?case
    using x xs Suc.IH [OF xs'] by simp
qed

lemma StoreAll_append:
  "StoreAll dimOrder res rs (xs @ ys) =
     bindF (StoreAll dimOrder res rs xs) (\<lambda>(res', rs'). StoreAll dimOrder res' rs' ys)"
proof (induction xs arbitrary: res rs)
  case Nil
  show ?case by simp
next
  case (Cons x xs)
  show ?case
    by (cases "store (Element res rs) x") (simp_all add: Cons.IH)
qed

lemma ElementsFrom_length: "ElementsFrom d p eb n subs = Inr xs \<Longrightarrow> length xs = n"
  by (induction n arbitrary: subs xs) (auto simp: bindF_eq_Inr)

lemma ElementsFrom_loads:
  "ElementsFrom d p eb n subs = Inr xs \<longleftrightarrow>
     length xs = n \<and>
     (\<forall>i < n. load (Element d ((IncrementSubscripts d p ^^ i) subs)) eb = Inr (xs ! i))"
proof (induction n arbitrary: subs xs)
  case 0
  show ?case by auto
next
  case (Suc n)
  show ?case
  proof
    assume "ElementsFrom d p eb (Suc n) subs = Inr xs"
    then obtain x xs' where
      x: "load (Element d subs) eb = Inr x" and
      xs': "ElementsFrom d p eb n (IncrementSubscripts d p subs) = Inr xs'" and
      xs: "xs = x # xs'"
      by (auto simp: bindF_eq_Inr)
    from xs' Suc.IH have
      l: "length xs' = n" and
      r: "\<forall>i < n. load (Element d ((IncrementSubscripts d p ^^ i) (IncrementSubscripts d p subs))) eb
            = Inr (xs' ! i)"
      by simp_all
    have "\<forall>i < Suc n. load (Element d ((IncrementSubscripts d p ^^ i) subs)) eb = Inr (xs ! i)"
    proof (intro allI impI)
      fix i assume "i < Suc n"
      then show "load (Element d ((IncrementSubscripts d p ^^ i) subs)) eb = Inr (xs ! i)"
        using x r xs by (cases i) (simp_all add: funpow_swap1)
    qed
    with l xs show "length xs = Suc n \<and>
      (\<forall>i < Suc n. load (Element d ((IncrementSubscripts d p ^^ i) subs)) eb = Inr (xs ! i))"
      by simp
  next
    assume a: "length xs = Suc n \<and>
      (\<forall>i < Suc n. load (Element d ((IncrementSubscripts d p ^^ i) subs)) eb = Inr (xs ! i))"
    then obtain x xs' where xs: "xs = x # xs'" and l: "length xs' = n"
      by (cases xs) auto
    from a xs have x: "load (Element d subs) eb = Inr x"
      by (auto dest: spec [where x = 0])
    have "\<forall>i < n. load (Element d ((IncrementSubscripts d p ^^ i) (IncrementSubscripts d p subs))) eb
            = Inr (xs' ! i)"
    proof (intro allI impI)
      fix i assume "i < n"
      with a have "load (Element d ((IncrementSubscripts d p ^^ Suc i) subs)) eb = Inr (xs ! Suc i)"
        by blast
      with xs show "load (Element d ((IncrementSubscripts d p ^^ i) (IncrementSubscripts d p subs))) eb
            = Inr (xs' ! i)"
        by (simp add: funpow_swap1)
    qed
    with l Suc.IH have "ElementsFrom d p eb n (IncrementSubscripts d p subs) = Inr xs'"
      by simp
    with x xs show "ElementsFrom d p eb (Suc n) subs = Inr xs"
      by simp
  qed
qed

lemma IncrementSubscripts_Cursor:
  "(IncrementSubscripts d p ^^ n) (GetLowerBounds d) =
     Cursor (dim d) (case p of None \<Rightarrow> [0..<rank d] | Some q \<Rightarrow> take (rank d) q) n"
  by (induction n) (simp_all add: GetLowerBounds_def IncrementSubscripts_def)

section \<open>Filling the result\<close>

lemma Traversal_length: "Traversal dims ks \<Longrightarrow> length ks = length dims"
  by (metis Traversal_def card_lessThan distinct_card)

lemma Element_Cursor:
  assumes "Traversal (dim d) ks"
  shows "Element d (Cursor (dim d) ks n) =
           (base_addr d,
            int (elem_len d * nat (ElementIndex (dim d) [0..<length (dim d)] (Cursor (dim d) ks n))))"
  using Cursor_cell_bounds [OF assms, of n] by (simp add: Element_def rank_def)

lemma StoreAll_fills:
  assumes "Traversal D dimOrder"
  shows "dim res = D \<Longrightarrow> elem_len res = eb \<Longrightarrow>
     length (base_addr res) = eb * nat (prod_list (map Extent D)) \<Longrightarrow>
     \<forall>x \<in> set xs. length x = eb \<Longrightarrow>
     int (i + length xs) \<le> prod_list (map Extent D) \<Longrightarrow>
     \<exists>res'. StoreAll dimOrder res (Cursor D dimOrder i) xs
                = Inr (res', Cursor D dimOrder (i + length xs)) \<and>
            dim res' = D \<and> elem_len res' = eb \<and>
            length (base_addr res') = length (base_addr res) \<and>
            (\<forall>n. int n < prod_list (map Extent D) \<longrightarrow>
               load (Element res' (Cursor D dimOrder n)) eb =
                 (if i \<le> n \<and> n < i + length xs then Inr (xs ! (n - i))
                  else load (Element res (Cursor D dimOrder n)) eb))"
proof (induction xs arbitrary: i res)
  case Nil
  then show ?case by auto
next
  case (Cons x xs)
  let ?T = "prod_list (map Extent D)"
  define cell where "cell n = nat (ElementIndex D [0..<length D] (Cursor D dimOrder n))" for n
  have el: "Element r (Cursor D dimOrder n) = (base_addr r, int (eb * cell n))"
    if "dim r = D" "elem_len r = eb" for r n
    using Element_Cursor [of r dimOrder n] assms that by (simp add: cell_def)
  have cb: "cell n < nat ?T" for n
    using Cursor_cell_bounds [OF assms, of n] by (simp add: cell_def)
  have inj: "cell n \<noteq> cell m" if "int n < ?T" "int m < ?T" "n \<noteq> m" for n m
  proof
    assume "cell n = cell m"
    with Cursor_cell_bounds [OF assms, of n] Cursor_cell_bounds [OF assms, of m]
    have "ElementIndex D [0..<length D] (Cursor D dimOrder n) =
          ElementIndex D [0..<length D] (Cursor D dimOrder m)"
      unfolding cell_def by linarith
    from Cursor_inject [OF assms that(1,2) this] that(3) show False by simp
  qed
  have lx: "length x = eb" using Cons.prems(4) by simp
  have "eb * Suc (cell i) \<le> eb * nat ?T"
    using cb [of i] by (intro mult_le_mono2) simp
  then have room: "eb * cell i + eb \<le> length (base_addr res)"
    using Cons.prems(3) by simp
  then obtain mem where mem: "store (base_addr res, int (eb * cell i)) x = Inr mem"
    using lx by (simp add: store_def del: of_nat_mult)
  let ?r1 = "res\<lparr>base_addr := mem\<rparr>"
  have lm: "length mem = length (base_addr res)"
    using store_length [OF mem] by simp
  have next_subs: "IncrementSubscripts res (Some dimOrder) (Cursor D dimOrder i)
                     = Cursor D dimOrder (Suc i)"
    using Traversal_length [OF assms] Cons.prems(1)
    by (simp add: IncrementSubscripts_def rank_def)
  have run: "StoreAll dimOrder res (Cursor D dimOrder i) (x # xs) =
               StoreAll dimOrder ?r1 (Cursor D dimOrder (Suc i)) xs"
    using el [OF Cons.prems(1,2), of i] mem next_subs by simp
  have "\<exists>res'. StoreAll dimOrder ?r1 (Cursor D dimOrder (Suc i)) xs
                = Inr (res', Cursor D dimOrder (Suc i + length xs)) \<and>
            dim res' = D \<and> elem_len res' = eb \<and>
            length (base_addr res') = length (base_addr ?r1) \<and>
            (\<forall>n. int n < ?T \<longrightarrow>
               load (Element res' (Cursor D dimOrder n)) eb =
                 (if Suc i \<le> n \<and> n < Suc i + length xs then Inr (xs ! (n - Suc i))
                  else load (Element ?r1 (Cursor D dimOrder n)) eb))"
    using Cons.prems lm by (intro Cons.IH) simp_all
  then obtain res' where
    r: "StoreAll dimOrder ?r1 (Cursor D dimOrder (Suc i)) xs
          = Inr (res', Cursor D dimOrder (Suc i + length xs))"
       "dim res' = D" "elem_len res' = eb" "length (base_addr res') = length mem" and
    ld: "\<forall>n. int n < ?T \<longrightarrow>
               load (Element res' (Cursor D dimOrder n)) eb =
                 (if Suc i \<le> n \<and> n < Suc i + length xs then Inr (xs ! (n - Suc i))
                  else load (Element ?r1 (Cursor D dimOrder n)) eb)"
    by auto
  have iT: "int i < ?T" using Cons.prems(5) by simp
  have "load (Element res' (Cursor D dimOrder n)) eb =
          (if i \<le> n \<and> n < i + length (x # xs) then Inr ((x # xs) ! (n - i))
           else load (Element res (Cursor D dimOrder n)) eb)" if n: "int n < ?T" for n
  proof -
    consider "n = i" | "Suc i \<le> n \<and> n < Suc i + length xs" | "n < i \<or> Suc i + length xs \<le> n"
      by linarith
    then show ?thesis
    proof cases
      case 1
      have "load (Element ?r1 (Cursor D dimOrder i)) eb = Inr x"
        using load_store_same [OF mem] lx el [of ?r1 i] Cons.prems(1,2) by simp
      with ld n 1 show ?thesis by simp
    next
      case 2
      with ld n show ?thesis by (simp add: Suc_diff_Suc)
    next
      case 3
      then have ne: "cell i \<noteq> cell n" using inj [OF iT n] by auto
      have "load (Element ?r1 (Cursor D dimOrder n)) eb = load (Element res (Cursor D dimOrder n)) eb"
        using load_store_other [OF mem lx ne] el [of ?r1 n] el [of res n] Cons.prems(1,2)
        by simp
      with ld n 3 show ?thesis by auto
    qed
  qed
  with run r lm show ?case by simp
qed

lemma StoreAll_then_read:
  assumes "Traversal (dim res) dimOrder"
    and "length (base_addr res) = elem_len res * nat (prod_list (map Extent (dim res)))"
    and "\<forall>x \<in> set xs. length x = elem_len res"
    and "int (length xs) \<le> prod_list (map Extent (dim res))"
  shows "\<exists>res' rs'. StoreAll dimOrder res (GetLowerBounds res) xs = Inr (res', rs') \<and>
            dim res' = dim res \<and> elem_len res' = elem_len res \<and>
            ElementsInOrder res' (Some dimOrder) (length xs) = Inr xs"
proof -
  from StoreAll_fills [OF assms(1), of res "elem_len res" xs 0] assms(2-4)
  obtain res' where
    r: "StoreAll dimOrder res (Cursor (dim res) dimOrder 0) xs
          = Inr (res', Cursor (dim res) dimOrder (length xs))"
       "dim res' = dim res" "elem_len res' = elem_len res" and
    ld: "\<forall>n. int n < prod_list (map Extent (dim res)) \<longrightarrow>
               load (Element res' (Cursor (dim res) dimOrder n)) (elem_len res) =
                 (if n < length xs then Inr (xs ! n)
                  else load (Element res (Cursor (dim res) dimOrder n)) (elem_len res))"
    by auto
  have tk: "take (rank res') dimOrder = dimOrder"
    using Traversal_length [OF assms(1)] r(2) by (simp add: rank_def)
  have "\<forall>n < length xs.
          load (Element res' ((IncrementSubscripts res' (Some dimOrder) ^^ n) (GetLowerBounds res')))
            (elem_len res) = Inr (xs ! n)"
    using ld assms(4) r(2) tk by (simp add: IncrementSubscripts_Cursor)
  then have "ElementsInOrder res' (Some dimOrder) (length xs) = Inr xs"
    using r(3) by (simp add: ElementsInOrder_def ElementBytes_def ElementsFrom_loads)
  with r show ?thesis by (simp add: GetLowerBounds_def)
qed

section \<open>The stages on valid arguments\<close>

lemma ExtractShape_decoded:
  assumes "DecodedValues shape b n sub = Inr es" and "list_all (\<lambda>e. 0 \<le> e) es"
    and "els < 2 ^ 64"
  shows "ExtractShape shape b n sub ext els =
           Inr (ext @ es, (els * prod_list (map nat es)) mod 2 ^ 64)"
  using assms
proof (induction n arbitrary: sub ext els es)
  case 0
  then show ?case by simp
next
  case (Suc n)
  from Suc.prems(1) obtain v es' where
    v: "GetInt64 (Element shape [sub]) b = Inr v" and
    es': "DecodedValues shape b n (sub + 1) = Inr es'" and
    es: "es = v # es'"
    by (auto simp: bindF_eq_Inr)
  from Suc.prems(2) es have v0: "0 \<le> v" and all': "list_all (\<lambda>e. 0 \<le> e) es'"
    by simp_all
  have "(els * nat v) mod 2 ^ 64 < (2::nat) ^ 64" by simp
  from Suc.IH [OF es' all' this]
  have "ExtractShape shape b n (sub + 1) (ext @ [v]) ((els * nat v) mod 2 ^ 64) =
          Inr ((ext @ [v]) @ es', ((els * nat v) mod 2 ^ 64 * prod_list (map nat es')) mod 2 ^ 64)" .
  moreover have "((els * nat v) mod 2 ^ 64 * prod_list (map nat es')) mod 2 ^ 64 =
      (els * prod_list (map nat es)) mod 2 ^ 64"
    using es by (simp add: mod_mult_left_eq mult.assoc)
  ultimately show ?case
    using v v0 es by (simp add: CHECK_def)
qed

lemma CreateResult_dim:
  "CreateResult rt source n ext eb = Inr created \<Longrightarrow> dim created = extentDims n ext"
  by (auto simp: CreateResult_def Let_def bindF_eq_Inr CreateDerived_def Create_def
      split: option.splits)

lemma zip_replicate_ones:
  "length ext = n \<Longrightarrow>
     map2 (\<lambda>l e. \<lparr>LowerBound = l, Extent = e\<rparr>) (replicate n 1) ext =
     map (\<lambda>e. \<lparr>LowerBound = 1, Extent = e\<rparr>) ext"
  by (intro nth_equalityI) simp_all

lemma Allocate_result:
  assumes "AllocateStatus rt = CFI_SUCCESS" and "dim created = extentDims n ext"
    and "length ext = n"
  shows "\<exists>allocated. Allocate rt created (replicate n 1) ext eb = (CFI_SUCCESS, allocated) \<and>
           dim allocated = map (\<lambda>e. \<lparr>LowerBound = 1, Extent = e\<rparr>) ext \<and>
           elem_len allocated = eb \<and>
           length (base_addr allocated) = eb * prod_list (map nat ext)"
proof -
  have "rank created = n"
    using assms(2,3) by (simp add: rank_def extentDims_def)
  then show ?thesis
    using assms(1,3) by (simp add: Allocate_def Let_def zip_replicate_ones comp_def)
qed

lemma load_length: "load p n = Inr x \<Longrightarrow> length x = n"
  by (auto simp: load_def split: if_splits)

lemma ElementsFrom_sizes:
  "ElementsFrom d p eb n subs = Inr xs \<Longrightarrow> \<forall>x \<in> set xs. length x = eb"
  by (induction n arbitrary: subs xs) (auto simp: bindF_eq_Inr dest: load_length)

lemma ExtractOrder_decodes:
  "ExtractOrder ord b r n j sub vs dimOrder = Inr d \<Longrightarrow> \<exists>ks. ValuesAtOffsets ord b n sub = Inr ks"
proof (induction n arbitrary: j sub vs dimOrder)
  case 0
  show ?case by simp
next
  case (Suc n)
  from Suc.prems obtain k where
    k: "GetInt64 (Element_offset ord sub) b = Inr k" and
    "ExtractOrder ord b r n (j + 1) (sub + 1) (insert (nat (k - 1)) vs)
       (dimOrder[nat (k - 1) := j]) = Inr d"
    by (auto simp: bindF_eq_Inr)
  from Suc.IH [OF this(2)] k show ?case by auto
qed

lemma DimOrder_permutation:
  assumes "DimOrder order b r = Inr dimOrder"
  shows "distinct dimOrder \<and> set dimOrder = {..<nat r}"
proof (cases order)
  case None
  with assms show ?thesis by (auto simp: DimOrder_def)
next
  case (Some ord)
  let ?n = "nat r"
  from assms Some have
    run: "ExtractOrder ord b r ?n 0 (LowerBound (GetDimension ord 0)) {} (replicate ?n 0)
            = Inr dimOrder"
    by (auto simp: DimOrder_def bindF_eq_Inr)
  from ExtractOrder_decodes [OF run] obtain ks where
    ks: "ValuesAtOffsets ord b ?n (LowerBound (GetDimension ord 0)) = Inr ks" ..
  have ok: "distinct ks \<and> (\<forall>k \<in> set ks. 1 \<le> k \<and> k \<le> r \<and> nat (k - 1) \<notin> {})"
    using ExtractOrder_rejects [OF ks, of r "{}" 0 "replicate ?n 0"] run by auto
  then have "\<forall>k \<in> set ks. 1 \<le> k \<and> k \<le> r \<and> nat (k - 1) \<notin> {} \<and>
      nat (k - 1) < length (replicate ?n (0::nat))"
    by auto
  from ExtractOrder_accepts [OF ks _ this, of 0] ok run
  have len: "length dimOrder = ?n" and
    at: "\<forall>i < length ks. dimOrder ! nat (ks ! i - 1) = i"
    by auto
  have lk: "length ks = ?n" using ks by (rule ValuesAtOffsets_length)
  have sub: "{..<?n} \<subseteq> set dimOrder"
  proof
    fix i assume "i \<in> {..<?n}"
    then have i: "i < length ks" using lk by simp
    then have "ks ! i \<in> set ks" by simp
    with ok have "nat (ks ! i - 1) < ?n" by auto
    with at i len show "i \<in> set dimOrder"
      by (metis nth_mem)
  qed
  have "card (set dimOrder) \<le> ?n" using len card_length [of dimOrder] by simp
  moreover have "?n \<le> card (set dimOrder)"
    using card_mono [OF _ sub] by simp
  ultimately have c: "card (set dimOrder) = ?n" by simp
  then have "distinct dimOrder" using len by (simp add: card_distinct)
  moreover have "set dimOrder = {..<?n}"
    using sub c by (intro card_subset_eq [symmetric]) simp_all
  ultimately show ?thesis by simp
qed

lemma Elements_pos_Extents:
  "0 < prod_list (map (\<lambda>x. nat (Extent x)) dims) \<Longrightarrow> list_all (\<lambda>d. 1 \<le> Extent d) dims"
  by (induction dims) auto

lemma Populate_StoreAll:
  assumes "ElementsFrom source None eb (min m n) (GetLowerBounds source) = Inr xs"
    and "min m n < m \<longrightarrow>
           (\<exists>p. pad = Some p \<and> ElementsFrom p None eb (m - min m n) (GetLowerBounds p) = Inr ys)"
    and "\<not> min m n < m \<longrightarrow> ys = []"
  shows "Populate source pad dimOrder eb m n res =
           bindF (StoreAll dimOrder res (GetLowerBounds res) (xs @ ys)) (\<lambda>(r, _). Inr r)"
proof (cases "StoreAll dimOrder res (GetLowerBounds res) xs")
  case (Inl e)
  then show ?thesis
    using TransferLoop_StoreAll [OF assms(1)]
    by (simp add: Populate_def Let_def StoreAll_append)
next
  case (Inr a)
  obtain r1 rs1 where a: "a = (r1, rs1)" by (cases a)
  show ?thesis
  proof (cases "min m n < m")
    case True
    with assms(2) obtain p where p: "pad = Some p"
      "ElementsFrom p None eb (m - min m n) (GetLowerBounds p) = Inr ys" by auto
    from True have nm: "n < m" "min m n = n" by simp_all
    show ?thesis
      using Inr a nm p(1) TransferLoop_StoreAll [OF assms(1)] TransferLoop_StoreAll [OF p(2)]
      by (simp add: Populate_def Let_def StoreAll_append)
  next
    case False
    with assms(3) have "ys = []" by simp
    moreover from False have "\<not> n < m" by simp
    ultimately show ?thesis
      using Inr a TransferLoop_StoreAll [OF assms(1)]
      by (simp add: Populate_def Let_def)
  qed
qed

lemma pad_cycles:
  assumes "0 < Elements p"
    and "ElementsFrom p None eb (Elements p) (GetLowerBounds p) = Inr ps"
  shows "ElementsFrom p None eb n (GetLowerBounds p) =
           Inr (map (\<lambda>i. ps ! (i mod Elements p)) [0..<n])"
proof -
  have pos: "list_all (\<lambda>d. 1 \<le> Extent d) (dim p)"
    using assms(1) by (simp add: Elements_def Elements_pos_Extents)
  then have tr: "Traversal (dim p) [0..<rank p]"
    unfolding rank_def by (rule Traversal_natural)
  have "list_all (\<lambda>d. 0 \<le> Extent d) (dim p)"
    using pos by (simp add: list_all_iff) force
  then have T: "int (Elements p) = prod_list (map Extent (dim p))"
    by (simp add: Elements_def prod_list_nat_Extent)
  then have T': "nat (prod_list (map Extent (dim p))) = Elements p" by simp
  from assms(2) have ld: "\<forall>i < Elements p.
      load (Element p (Cursor (dim p) [0..<rank p] i)) eb = Inr (ps ! i)"
    by (simp add: ElementsFrom_loads IncrementSubscripts_Cursor)
  have "\<forall>i < n. load (Element p (Cursor (dim p) [0..<rank p] i)) eb
           = Inr (map (\<lambda>i. ps ! (i mod Elements p)) [0..<n] ! i)"
  proof (intro allI impI)
    fix i assume i: "i < n"
    have "Cursor (dim p) [0..<rank p] i = Cursor (dim p) [0..<rank p] (i mod Elements p)"
      using Cursor_periodic [OF tr, of i] T' by simp
    moreover have "i mod Elements p < Elements p" using assms(1) by simp
    ultimately show "load (Element p (Cursor (dim p) [0..<rank p] i)) eb
           = Inr (map (\<lambda>i. ps ! (i mod Elements p)) [0..<n] ! i)"
      using ld i by simp
  qed
  then show ?thesis
    by (simp add: ElementsFrom_loads IncrementSubscripts_Cursor)
qed

lemma prod_list_nat_int:
  "list_all (\<lambda>e. 0 \<le> e) es \<Longrightarrow> int (prod_list (map nat es)) = prod_list es"
  for es :: "int list"
  by (induction es) auto

lemma prod_list_pos_all:
  "0 < prod_list (map nat es) \<Longrightarrow> list_all (\<lambda>e. 1 \<le> e) es"
  for es :: "int list"
  by (induction es) auto

lemma RESHAPE_fills:
  assumes shape: "rank shape = 1" "IsInteger (type shape)"
      "0 \<le> Extent (GetDimension shape 0)" "Extent (GetDimension shape 0) \<le> int (maxRank rt)"
    and decoded: "DecodedValues shape (ElementBytes shape) (nat (Extent (GetDimension shape 0)))
        (LowerBound (GetDimension shape 0)) = Inr extents"
      "list_all (\<lambda>e. 0 \<le> e) extents"
    and count: "prod_list (map nat extents) < 2 ^ 64"
    and check: "SufficiencyCheck source pad (prod_list (map nat extents)) = Inr ()"
    and ord: "DimOrder order (ElementBytes shape) (Extent (GetDimension shape 0)) = Inr dimOrder"
    and created: "CreateResult rt source (nat (Extent (GetDimension shape 0))) extents
        (ElementBytes source) = Inr created"
    and alloc: "AllocateStatus rt = CFI_SUCCESS"
    and src: "ElementsFrom source None (ElementBytes source)
        (min (prod_list (map nat extents)) (Elements source)) (GetLowerBounds source) = Inr xs"
    and pd: "min (prod_list (map nat extents)) (Elements source) < prod_list (map nat extents) \<longrightarrow>
        (\<exists>p. pad = Some p \<and>
           ElementsFrom p None (ElementBytes source)
             (prod_list (map nat extents) - min (prod_list (map nat extents)) (Elements source))
             (GetLowerBounds p) = Inr ys)"
    and nopd: "\<not> min (prod_list (map nat extents)) (Elements source) < prod_list (map nat extents)
        \<longrightarrow> ys = []"
  shows "\<exists>r. RESHAPE rt source shape pad order = Inr r \<and>
             map Extent (dim r) = extents \<and> elem_len r = ElementBytes source \<and>
             ElementsInOrder r (Some dimOrder) (prod_list (map nat extents)) = Inr (xs @ ys)"
proof -
  let ?R = "Extent (GetDimension shape 0)"
  let ?M = "prod_list (map nat extents)"
  let ?eb = "ElementBytes source"
  have lext: "length extents = nat ?R"
    using decoded(1) by (rule DecodedValues_length)
  have es: "ExtractShape shape (ElementBytes shape) (nat ?R) (LowerBound (GetDimension shape 0)) [] 1
              = Inr (extents, ?M)"
    using ExtractShape_decoded [OF decoded, of 1 "[]"] count by simp
  from Allocate_result [OF alloc CreateResult_dim [OF created] lext, of ?eb]
  obtain allocated where
    al: "Allocate rt created (replicate (nat ?R) 1) extents ?eb = (CFI_SUCCESS, allocated)" and
    dims: "dim allocated = map (\<lambda>e. \<lparr>LowerBound = 1, Extent = e\<rparr>) extents" and
    eb: "elem_len allocated = ?eb" and
    room: "length (base_addr allocated) = ?eb * ?M"
    by auto
  have ext: "map Extent (dim allocated) = extents"
    using dims by (simp add: comp_def)
  have run: "RESHAPE rt source shape pad order =
      bindF (StoreAll dimOrder allocated (GetLowerBounds allocated) (xs @ ys)) (\<lambda>(r, _). Inr r)"
    using RESHAPE_from_stages [OF shape es check ord created al]
      Populate_StoreAll [OF src pd nopd]
    by simp
  have lx: "length xs = min ?M (Elements source)"
    using src by (rule ElementsFrom_length)
  have len: "length (xs @ ys) = ?M"
  proof (cases "min ?M (Elements source) < ?M")
    case True
    with pd obtain p where
      "ElementsFrom p None ?eb (?M - min ?M (Elements source)) (GetLowerBounds p) = Inr ys"
      by auto
    from ElementsFrom_length [OF this] lx True show ?thesis by simp
  next
    case False
    with nopd lx show ?thesis by simp
  qed
  show ?thesis
  proof (cases "?M = 0")
    case True
    with len have "xs @ ys = []" by simp
    with run True ext eb show ?thesis
      by (simp add: ElementsInOrder_def)
  next
    case False
    then have "list_all (\<lambda>e. 1 \<le> e) extents"
      by (intro prod_list_pos_all) simp
    then have pos: "list_all (\<lambda>d. 1 \<le> Extent d) (dim allocated)"
      using dims by (simp add: list_all_iff)
    have "length (dim allocated) = nat ?R"
      using dims lext by simp
    with DimOrder_permutation [OF ord] pos have tr: "Traversal (dim allocated) dimOrder"
      by (simp add: Traversal_def)
    have cells: "prod_list (map Extent (dim allocated)) = int ?M"
      using ext prod_list_nat_int [OF decoded(2)] by simp
    have sizes: "\<forall>x \<in> set (xs @ ys). length x = elem_len allocated"
    proof (cases "min ?M (Elements source) < ?M")
      case True
      with pd obtain p where
        "ElementsFrom p None ?eb (?M - min ?M (Elements source)) (GetLowerBounds p) = Inr ys"
        by auto
      from ElementsFrom_sizes [OF this] ElementsFrom_sizes [OF src] eb show ?thesis by auto
    next
      case False
      with nopd ElementsFrom_sizes [OF src] eb show ?thesis by auto
    qed
    from StoreAll_then_read [OF tr _ sizes] room eb cells len
    obtain res' rs' where
      "StoreAll dimOrder allocated (GetLowerBounds allocated) (xs @ ys) = Inr (res', rs')"
      "dim res' = dim allocated" "elem_len res' = elem_len allocated"
      "ElementsInOrder res' (Some dimOrder) (length (xs @ ys)) = Inr (xs @ ys)"
      by auto
    with run ext eb len show ?thesis by simp
  qed
qed

section \<open>The elements of the result\<close>

lemma ElementsFrom_natural:
  "ElementsFrom d (Some [0..<rank d]) eb n subs = ElementsFrom d None eb n subs"
  by (induction n arbitrary: subs) (simp_all add: IncrementSubscripts_def)

text \<open>
  C5. Let the shape be valid with extents that multiply to the number N of elements of
  the source (N below \<open>2 ^ 64\<close>, so that the count of line 61 does not wrap), and let the
  descriptor of the result be created and allocated. Then RESHAPE without pad and order
  returns a result of these extents whose N elements, visited in its own element order,
  are the elements of the source visited in its element order. No pad is there to be
  read.
\<close>

theorem RESHAPE_same_count:
  assumes "rank shape = 1" and "IsInteger (type shape)"
    and "0 \<le> Extent (GetDimension shape 0)"
    and "Extent (GetDimension shape 0) \<le> int (maxRank rt)"
    and "DecodedValues shape (ElementBytes shape) (nat (Extent (GetDimension shape 0)))
           (LowerBound (GetDimension shape 0)) = Inr extents"
    and "list_all (\<lambda>e. 0 \<le> e) extents"
    and "prod_list (map nat extents) = Elements source"
    and "Elements source < 2 ^ 64"
    and "CreateResult rt source (nat (Extent (GetDimension shape 0))) extents
           (ElementBytes source) = Inr created"
    and "AllocateStatus rt = CFI_SUCCESS"
    and "ElementsInOrder source None (Elements source) = Inr xs"
  shows "\<exists>r. RESHAPE rt source shape None None = Inr r \<and> map Extent (dim r) = extents \<and>
             ElementsInOrder r None (Elements source) = Inr xs"
proof -
  let ?R = "Extent (GetDimension shape 0)"
  have check: "SufficiencyCheck source None (prod_list (map nat extents)) = Inr ()"
    using assms(7) by (simp add: SufficiencyCheck_def)
  have ord: "DimOrder None (ElementBytes shape) ?R = Inr [0..<nat ?R]"
    by (simp add: DimOrder_def)
  have src: "ElementsFrom source None (ElementBytes source)
      (min (prod_list (map nat extents)) (Elements source)) (GetLowerBounds source) = Inr xs"
    using assms(7,11) by (simp add: ElementsInOrder_def)
  have count: "prod_list (map nat extents) < 2 ^ 64"
    using assms(7,8) by simp
  have nopad: "min (prod_list (map nat extents)) (Elements source) < prod_list (map nat extents) \<longrightarrow>
        (\<exists>p. None = Some p \<and>
           ElementsFrom p None (ElementBytes source)
             (prod_list (map nat extents) - min (prod_list (map nat extents)) (Elements source))
             (GetLowerBounds p) = Inr [])"
    using assms(7) by simp
  from RESHAPE_fills [OF assms(1-6) count check ord assms(9,10) src nopad]
  obtain r where
    r: "RESHAPE rt source shape None None = Inr r" "map Extent (dim r) = extents"
       "ElementsInOrder r (Some [0..<nat ?R]) (prod_list (map nat extents)) = Inr xs"
    by auto
  have "length extents = nat ?R"
    using assms(5) by (rule DecodedValues_length)
  with r(2) have "rank r = nat ?R"
    by (metis length_map rank_def)
  with r(3) assms(7) have "ElementsInOrder r None (Elements source) = Inr xs"
    by (simp add: ElementsInOrder_def ElementsFrom_natural [symmetric])
  with r show ?thesis by simp
qed

theorem RESHAPE_same_count_witness:
  "\<exists>r. RESHAPE runtime15 (vector TypeInteger 1 [1, 2, 3, 4, 5, 6]) (vector TypeInteger 1 [2, 3])
          None None = Inr r \<and>
       map Extent (dim r) = [2, 3] \<and>
       ElementsInOrder r None 6 = Inr [[1], [2], [3], [4], [5], [6]]"
proof -
  let ?source = "vector TypeInteger 1 [1, 2, 3, 4, 5, 6]"
  let ?shape = "vector TypeInteger 1 [2, 3]"
  have s: "rank ?shape = 1" "IsInteger (type ?shape)" "0 \<le> Extent (GetDimension ?shape 0)"
    "Extent (GetDimension ?shape 0) \<le> int (maxRank runtime15)"
    by (simp_all add: evaluation)
  have d: "DecodedValues ?shape (ElementBytes ?shape) (nat (Extent (GetDimension ?shape 0)))
             (LowerBound (GetDimension ?shape 0)) = Inr [2, 3]"
    by (simp add: evaluation DecodedValues_numeral cong: bindF_weak_cong)
  have e: "list_all (\<lambda>e. 0 \<le> e) [2, 3 :: int]" by simp
  have n: "prod_list (map nat [2, 3]) = Elements ?source" "Elements ?source < 2 ^ 64"
    by (simp_all add: evaluation)
  have "\<exists>created. CreateResult runtime15 ?source (nat (Extent (GetDimension ?shape 0))) [2, 3]
           (ElementBytes ?source) = Inr created"
    by (simp add: evaluation)
  then obtain created where
    c: "CreateResult runtime15 ?source (nat (Extent (GetDimension ?shape 0))) [2, 3]
           (ElementBytes ?source) = Inr created" ..
  have a: "AllocateStatus runtime15 = CFI_SUCCESS"
    by (simp add: evaluation)
  have x: "ElementsInOrder ?source None (Elements ?source) = Inr [[1], [2], [3], [4], [5], [6]]"
    by (simp add: evaluation cong: bindF_weak_cong)
  have six: "Elements ?source = 6" by (simp add: evaluation)
  from RESHAPE_same_count [OF s d e n c a x] six show ?thesis by simp
qed

text \<open>
  C4. Let the shape be valid with extents that multiply to M (below \<open>2 ^ 64\<close>), more
  than the number N of elements of the source, let the pad have elements, of the element
  size of the source,
  let the order (if any) pass its checks as lines 78-88 read it, with \<open>dimOrder\<close> the
  mapping they build, and let the descriptor of the result be created
  and allocated. Then RESHAPE returns a result whose M elements, visited in fill order
  (stepping with \<open>dimOrder\<close>), are the N elements of the source in its element order
  followed by M - N elements of the pad, taken in its element order from its first
  element and starting over at its first element whenever its last has been used.
\<close>

theorem RESHAPE_pads_cyclically:
  assumes "rank shape = 1" and "IsInteger (type shape)"
    and "0 \<le> Extent (GetDimension shape 0)"
    and "Extent (GetDimension shape 0) \<le> int (maxRank rt)"
    and "DecodedValues shape (ElementBytes shape) (nat (Extent (GetDimension shape 0)))
           (LowerBound (GetDimension shape 0)) = Inr extents"
    and "list_all (\<lambda>e. 0 \<le> e) extents"
    and "Elements source < prod_list (map nat extents)"
    and "prod_list (map nat extents) < 2 ^ 64"
    and "0 < Elements p" and "ElementBytes p = ElementBytes source"
    and "DimOrder order (ElementBytes shape) (Extent (GetDimension shape 0)) = Inr dimOrder"
    and "CreateResult rt source (nat (Extent (GetDimension shape 0))) extents
           (ElementBytes source) = Inr created"
    and "AllocateStatus rt = CFI_SUCCESS"
    and "ElementsInOrder source None (Elements source) = Inr xs"
    and "ElementsInOrder p None (Elements p) = Inr ps"
  shows "\<exists>r. RESHAPE rt source shape (Some p) order = Inr r \<and> map Extent (dim r) = extents \<and>
             ElementsInOrder r (Some dimOrder) (prod_list (map nat extents)) =
               Inr (xs @ map (\<lambda>i. ps ! (i mod Elements p))
                           [0..<prod_list (map nat extents) - Elements source])"
proof -
  let ?M = "prod_list (map nat extents)"
  let ?ys = "map (\<lambda>i. ps ! (i mod Elements p)) [0..<?M - Elements source]"
  have m: "min ?M (Elements source) = Elements source"
    using assms(7) by simp
  have check: "SufficiencyCheck source (Some p) ?M = Inr ()"
    using assms(7) by (simp add: SufficiencyCheck_def)
  have src: "ElementsFrom source None (ElementBytes source) (min ?M (Elements source))
      (GetLowerBounds source) = Inr xs"
    using assms(14) m by (simp add: ElementsInOrder_def)
  have "ElementsFrom p None (ElementBytes source) (Elements p) (GetLowerBounds p) = Inr ps"
    using assms(10,15) by (simp add: ElementsInOrder_def)
  from pad_cycles [OF assms(9) this, of "?M - Elements source"]
  have pd: "min ?M (Elements source) < ?M \<longrightarrow>
        (\<exists>q. Some p = Some q \<and>
           ElementsFrom q None (ElementBytes source) (?M - min ?M (Elements source))
             (GetLowerBounds q) = Inr ?ys)"
    using m by simp
  have nopd: "\<not> min ?M (Elements source) < ?M \<longrightarrow> ?ys = []"
    using assms(7) m by simp
  from RESHAPE_fills [OF assms(1-6) assms(8) check assms(11-13) src pd nopd]
  show ?thesis by blast
qed

theorem RESHAPE_pads_cyclically_witness:
  "(\<exists>r. RESHAPE runtime15 (vector TypeInteger 1 [1, 2, 3]) (vector TypeInteger 1 [2, 2, 2])
          (Some (vector TypeInteger 1 [8, 9])) None = Inr r \<and>
       map Extent (dim r) = [2, 2, 2] \<and>
       ElementsInOrder r (Some [0, 1, 2]) 8 = Inr [[1], [2], [3], [8], [9], [8], [9], [8]]) \<and>
   (\<exists>r. RESHAPE runtime15 (vector TypeInteger 1 [1, 2, 3]) (vector TypeInteger 1 [2, 2, 2])
          (Some (vector TypeInteger 1 [8, 9])) (Some (vector0 TypeInteger 1 [2, 1, 3])) = Inr r \<and>
       map Extent (dim r) = [2, 2, 2] \<and>
       ElementsInOrder r (Some [1, 0, 2]) 8 = Inr [[1], [2], [3], [8], [9], [8], [9], [8]])"
proof -
  let ?source = "vector TypeInteger 1 [1, 2, 3]"
  let ?shape = "vector TypeInteger 1 [2, 2, 2]"
  let ?pad = "vector TypeInteger 1 [8, 9]"
  let ?order = "Some (vector0 TypeInteger 1 [2, 1, 3])"
  have s: "rank ?shape = 1" "IsInteger (type ?shape)" "0 \<le> Extent (GetDimension ?shape 0)"
    "Extent (GetDimension ?shape 0) \<le> int (maxRank runtime15)"
    by (simp_all add: evaluation)
  have d: "DecodedValues ?shape (ElementBytes ?shape) (nat (Extent (GetDimension ?shape 0)))
             (LowerBound (GetDimension ?shape 0)) = Inr [2, 2, 2]"
    by (simp add: evaluation DecodedValues_numeral cong: bindF_weak_cong)
  have e: "list_all (\<lambda>e. 0 \<le> e) [2, 2, 2 :: int]" by simp
  have n: "Elements ?source < prod_list (map nat [2, 2, 2])" "prod_list (map nat [2, 2, 2]) < 2 ^ 64"
    by (simp_all add: evaluation)
  have p: "0 < Elements ?pad" "ElementBytes ?pad = ElementBytes ?source"
    by (simp_all add: evaluation)
  have o0: "DimOrder None (ElementBytes ?shape) (Extent (GetDimension ?shape 0)) = Inr [0, 1, 2]"
    by (simp add: evaluation cong: bindF_weak_cong)
  have o1: "DimOrder ?order (ElementBytes ?shape) (Extent (GetDimension ?shape 0)) = Inr [1, 0, 2]"
    by (simp add: evaluation cong: bindF_weak_cong)
  have "\<exists>created. CreateResult runtime15 ?source (nat (Extent (GetDimension ?shape 0))) [2, 2, 2]
           (ElementBytes ?source) = Inr created"
    by (simp add: evaluation)
  then obtain created where
    c: "CreateResult runtime15 ?source (nat (Extent (GetDimension ?shape 0))) [2, 2, 2]
           (ElementBytes ?source) = Inr created" ..
  have a: "AllocateStatus runtime15 = CFI_SUCCESS"
    by (simp add: evaluation)
  have x: "ElementsInOrder ?source None (Elements ?source) = Inr [[1], [2], [3]]"
    by (simp add: evaluation cong: bindF_weak_cong)
  have y: "ElementsInOrder ?pad None (Elements ?pad) = Inr [[8], [9]]"
    by (simp add: evaluation cong: bindF_weak_cong)
  have k: "Elements ?source = 3" "Elements ?pad = 2" "prod_list (map nat [2, 2, 2]) = 8"
    by (simp_all add: evaluation)
  have cyc: "map (\<lambda>i. [[8], [9]] ! (i mod 2)) [0..<8 - 3] = [[8], [9], [8], [9], [8 :: byte]]"
    by (simp add: upt_conv_Cons)
  from RESHAPE_pads_cyclically [OF s d e n p o0 c a x y] k cyc
  have "\<exists>r. RESHAPE runtime15 ?source ?shape (Some ?pad) None = Inr r \<and>
       map Extent (dim r) = [2, 2, 2] \<and>
       ElementsInOrder r (Some [0, 1, 2]) 8 = Inr [[1], [2], [3], [8], [9], [8], [9], [8]]"
    by simp
  moreover from RESHAPE_pads_cyclically [OF s d e n p o1 c a x y] k cyc
  have "\<exists>r. RESHAPE runtime15 ?source ?shape (Some ?pad) ?order = Inr r \<and>
       map Extent (dim r) = [2, 2, 2] \<and>
       ElementsInOrder r (Some [1, 0, 2]) 8 = Inr [[1], [2], [3], [8], [9], [8], [9], [8]]"
    by simp
  ultimately show ?thesis by blast
qed

end
